theory Spec2Isabelle
  imports Main "HOL-Library.Multiset"
begin

unbundle bit_operations_syntax

section \<open>Data model (types.ts)\<close>

text \<open>
  The interfaces of \<^verbatim>\<open>types.ts\<close> as records, field for field and in the order of the
  source. Strings are byte strings (the UTF-8 encoding of the JavaScript string).
\<close>

record BuildTarget =
  os :: string
  arch :: string
  "output" :: string
  platform :: string

text \<open>
  A JavaScript \<^verbatim>\<open>number\<close> as the builder can receive it from \<^verbatim>\<open>parseInt\<close>: an
  integer or \<^verbatim>\<open>NaN\<close>. Integers are exact here; magnitudes beyond \<^verbatim>\<open>2^53\<close>, where
  a double is no longer exact, are outside the model.
\<close>

datatype number = NaN | Num int

record BuildConfig =
  targets :: "BuildTarget list"
  ldflags :: string
  tags :: "string list"
  cgo :: bool
  race :: bool
  compress :: bool
  version :: string
  buildVersion :: string
  checksum :: bool
  clean :: bool
  debug :: bool
  verbose :: bool
  timestamp :: string
  gitHash :: string
  randomHash :: string
  outputDir :: string
  binaryName :: string
  static :: bool
  strip :: bool
  timeout :: number
  parallel :: number
  skipTests :: bool
  skipVerification :: bool
  noCache :: "bool option"

record BuildResult =
  success :: bool
  binaries :: "string list"
  checksums :: "string list"
  failed :: "string list"
  duration :: int

section \<open>Library functions the cache relies on\<close>

subsection \<open>MD5 (\<^verbatim>\<open>crypto.createHash('md5')\<close>)\<close>

text \<open>
  The digest of Node's \<^verbatim>\<open>crypto\<close> module is the MD5 function of RFC 1321. It is
  written here on 32-bit values held in \<open>int\<close>, every addition reduced modulo \<open>2^32\<close>.
  A table row is the round function, the additive constant, the rotation and the index
  of the message word of one of the 64 steps.
\<close>

definition add32 :: "int \<Rightarrow> int \<Rightarrow> int" where
  "add32 x y = (x + y) mod 4294967296"

definition rotl32 :: "int \<Rightarrow> nat \<Rightarrow> int" where
  "rotl32 x n = (x * 2 ^ n) mod 4294967296 + x div 2 ^ (32 - n)"

definition not32 :: "int \<Rightarrow> int" where
  "not32 x = 4294967295 - x"

datatype md5_round = R1 | R2 | R3 | R4

fun md5_F :: "md5_round \<Rightarrow> int \<Rightarrow> int \<Rightarrow> int \<Rightarrow> int" where
  "md5_F R1 b c d = (b AND c) OR (not32 b AND d)"
| "md5_F R2 b c d = (d AND b) OR (not32 d AND c)"
| "md5_F R3 b c d = b XOR c XOR d"
| "md5_F R4 b c d = c XOR (b OR not32 d)"

definition md5_table :: "(md5_round \<times> int \<times> nat \<times> nat) list" where
  "md5_table = [
     (R1, 0xd76aa478, 7, 0), (R1, 0xe8c7b756, 12, 1), (R1, 0x242070db, 17, 2), (R1, 0xc1bdceee, 22, 3),
     (R1, 0xf57c0faf, 7, 4), (R1, 0x4787c62a, 12, 5), (R1, 0xa8304613, 17, 6), (R1, 0xfd469501, 22, 7),
     (R1, 0x698098d8, 7, 8), (R1, 0x8b44f7af, 12, 9), (R1, 0xffff5bb1, 17, 10), (R1, 0x895cd7be, 22, 11),
     (R1, 0x6b901122, 7, 12), (R1, 0xfd987193, 12, 13), (R1, 0xa679438e, 17, 14), (R1, 0x49b40821, 22, 15),
     (R2, 0xf61e2562, 5, 1), (R2, 0xc040b340, 9, 6), (R2, 0x265e5a51, 14, 11), (R2, 0xe9b6c7aa, 20, 0),
     (R2, 0xd62f105d, 5, 5), (R2, 0x02441453, 9, 10), (R2, 0xd8a1e681, 14, 15), (R2, 0xe7d3fbc8, 20, 4),
     (R2, 0x21e1cde6, 5, 9), (R2, 0xc33707d6, 9, 14), (R2, 0xf4d50d87, 14, 3), (R2, 0x455a14ed, 20, 8),
     (R2, 0xa9e3e905, 5, 13), (R2, 0xfcefa3f8, 9, 2), (R2, 0x676f02d9, 14, 7), (R2, 0x8d2a4c8a, 20, 12),
     (R3, 0xfffa3942, 4, 5), (R3, 0x8771f681, 11, 8), (R3, 0x6d9d6122, 16, 11), (R3, 0xfde5380c, 23, 14),
     (R3, 0xa4beea44, 4, 1), (R3, 0x4bdecfa9, 11, 4), (R3, 0xf6bb4b60, 16, 7), (R3, 0xbebfbc70, 23, 10),
     (R3, 0x289b7ec6, 4, 13), (R3, 0xeaa127fa, 11, 0), (R3, 0xd4ef3085, 16, 3), (R3, 0x04881d05, 23, 6),
     (R3, 0xd9d4d039, 4, 9), (R3, 0xe6db99e5, 11, 12), (R3, 0x1fa27cf8, 16, 15), (R3, 0xc4ac5665, 23, 2),
     (R4, 0xf4292244, 6, 0), (R4, 0x432aff97, 10, 7), (R4, 0xab9423a7, 15, 14), (R4, 0xfc93a039, 21, 5),
     (R4, 0x655b59c3, 6, 12), (R4, 0x8f0ccc92, 10, 3), (R4, 0xffeff47d, 15, 10), (R4, 0x85845dd1, 21, 1),
     (R4, 0x6fa87e4f, 6, 8), (R4, 0xfe2ce6e0, 10, 15), (R4, 0xa3014314, 15, 6), (R4, 0x4e0811a1, 21, 13),
     (R4, 0xf7537e82, 6, 4), (R4, 0xbd3af235, 10, 11), (R4, 0x2ad7d2bb, 15, 2), (R4, 0xeb86d391, 21, 9)]"

fun md5_step ::
  "int list \<Rightarrow> md5_round \<times> int \<times> nat \<times> nat \<Rightarrow> int \<times> int \<times> int \<times> int \<Rightarrow> int \<times> int \<times> int \<times> int" where
  "md5_step M (r, k, s, g) (a, b, c, d) =
     (d, add32 b (rotl32 (add32 (add32 (add32 (md5_F r b c d) a) k) (M ! g)) s), b, c)"

fun md5_block :: "int list \<Rightarrow> int \<times> int \<times> int \<times> int \<Rightarrow> int \<times> int \<times> int \<times> int" where
  "md5_block M (a0, b0, c0, d0) =
     (case fold (md5_step M) md5_table (a0, b0, c0, d0) of
        (a, b, c, d) \<Rightarrow> (add32 a0 a, add32 b0 b, add32 c0 c, add32 d0 d))"

fun le_words :: "string \<Rightarrow> int list" where
  "le_words (b0 # b1 # b2 # b3 # bs) =
     (of_char b0 + 256 * of_char b1 + 65536 * of_char b2 + 16777216 * of_char b3) # le_words bs"
| "le_words _ = []"

definition le_bytes64 :: "int \<Rightarrow> string" where
  "le_bytes64 n = map (\<lambda>i. char_of (n div 256 ^ i)) [0..<8]"

definition md5_pad :: "string \<Rightarrow> string" where
  "md5_pad m =
     m @ [char_of (128::nat)] @ replicate ((119 - length m mod 64) mod 64) (char_of (0::nat))
       @ le_bytes64 (8 * int (length m))"

fun md5_blocks :: "nat \<Rightarrow> int list \<Rightarrow> int list list" where
  "md5_blocks 0 ws = []"
| "md5_blocks (Suc n) ws = take 16 ws # md5_blocks n (drop 16 ws)"

definition hex_digit :: "int \<Rightarrow> char" where
  "hex_digit n = ''0123456789abcdef'' ! nat n"

definition hex_byte :: "int \<Rightarrow> string" where
  "hex_byte n = [hex_digit (n div 16 mod 16), hex_digit (n mod 16)]"

definition hex_word_le :: "int \<Rightarrow> string" where
  "hex_word_le w = concat (map (\<lambda>i. hex_byte (w div 256 ^ i mod 256)) [0..<4])"

text \<open>\<^verbatim>\<open>createHash('md5').update(m).digest('hex')\<close>.\<close>

definition md5_hex :: "string \<Rightarrow> string" where
  "md5_hex m =
     (let ws = le_words (md5_pad m) in
      case fold md5_block (md5_blocks (length ws div 16) ws)
             (0x67452301, 0xefcdab89, 0x98badcfe, 0x10325476) of
        (a, b, c, d) \<Rightarrow> hex_word_le a @ hex_word_le b @ hex_word_le c @ hex_word_le d)"

subsection \<open>\<^verbatim>\<open>JSON.stringify\<close> on a build configuration\<close>

text \<open>
  Properties are written in creation order, which is the order of the object literals
  in \<^verbatim>\<open>CLI.createBuildConfig\<close> and \<^verbatim>\<open>CLI.determineTargets\<close>; a property whose
  value is \<^verbatim>\<open>undefined\<close> is left out and \<^verbatim>\<open>NaN\<close> is written \<^verbatim>\<open>null\<close>.
\<close>

definition hex4 :: "nat \<Rightarrow> string" where
  "hex4 n = ''00'' @ hex_byte (int n)"

definition json_escape :: "char \<Rightarrow> string" where
  "json_escape c =
     (if c = CHR 0x22 then [CHR 0x5C, CHR 0x22]
      else if c = CHR 0x5C then [CHR 0x5C, CHR 0x5C]
      else if c = CHR 0x08 then [CHR 0x5C, CHR ''b'']
      else if c = CHR 0x09 then [CHR 0x5C, CHR ''t'']
      else if c = CHR 0x0A then [CHR 0x5C, CHR ''n'']
      else if c = CHR 0x0C then [CHR 0x5C, CHR ''f'']
      else if c = CHR 0x0D then [CHR 0x5C, CHR ''r'']
      else if (of_char c :: nat) < 32 then [CHR 0x5C, CHR ''u''] @ hex4 (of_char c)
      else [c])"

definition json_string :: "string \<Rightarrow> string" where
  "json_string s = [CHR 0x22] @ concat (map json_escape s) @ [CHR 0x22]"

definition json_bool :: "bool \<Rightarrow> string" where
  "json_bool b = (if b then ''true'' else ''false'')"

function show_nat :: "nat \<Rightarrow> string" where
  "show_nat n = (if n < 10 then [hex_digit (int n)] else show_nat (n div 10) @ [hex_digit (int (n mod 10))])"
  by pat_completeness auto
termination
  by (relation "measure id") auto

declare show_nat.simps [simp del]

definition json_number :: "number \<Rightarrow> string" where
  "json_number x =
     (case x of NaN \<Rightarrow> ''null''
      | Num i \<Rightarrow> (if i < 0 then ''-'' @ show_nat (nat (- i)) else show_nat (nat i)))"

fun join :: "string \<Rightarrow> string list \<Rightarrow> string" where
  "join sep [] = []"
| "join sep [x] = x"
| "join sep (x # y # ys) = x @ sep @ join sep (y # ys)"

definition json_array :: "string list \<Rightarrow> string" where
  "json_array xs = ''['' @ join '','' xs @ '']''"

definition json_prop :: "string \<Rightarrow> string \<Rightarrow> string" where
  "json_prop k v = json_string k @ '':'' @ v"

definition json_object :: "string list \<Rightarrow> string" where
  "json_object ps = ''{'' @ join '','' ps @ ''}''"

definition json_target :: "BuildTarget \<Rightarrow> string" where
  "json_target t =
     json_object
       [json_prop ''os'' (json_string (os t)),
        json_prop ''arch'' (json_string (arch t)),
        json_prop ''output'' (json_string (output t)),
        json_prop ''platform'' (json_string (platform t))]"

definition JSON_stringify :: "BuildConfig \<Rightarrow> string" where
  "JSON_stringify c =
     json_object
       ([json_prop ''targets'' (json_array (map json_target (targets c))),
         json_prop ''ldflags'' (json_string (ldflags c)),
         json_prop ''tags'' (json_array (map json_string (tags c))),
         json_prop ''cgo'' (json_bool (cgo c)),
         json_prop ''race'' (json_bool (race c)),
         json_prop ''compress'' (json_bool (compress c)),
         json_prop ''version'' (json_string (version c)),
         json_prop ''buildVersion'' (json_string (buildVersion c)),
         json_prop ''checksum'' (json_bool (checksum c)),
         json_prop ''clean'' (json_bool (clean c)),
         json_prop ''debug'' (json_bool (debug c)),
         json_prop ''verbose'' (json_bool (verbose c)),
         json_prop ''timestamp'' (json_string (timestamp c)),
         json_prop ''gitHash'' (json_string (gitHash c)),
         json_prop ''randomHash'' (json_string (randomHash c)),
         json_prop ''outputDir'' (json_string (outputDir c)),
         json_prop ''binaryName'' (json_string (binaryName c)),
         json_prop ''static'' (json_bool (static c)),
         json_prop ''strip'' (json_bool (strip c)),
         json_prop ''timeout'' (json_number (timeout c)),
         json_prop ''parallel'' (json_number (parallel c)),
         json_prop ''skipTests'' (json_bool (skipTests c)),
         json_prop ''skipVerification'' (json_bool (skipVerification c))]
        @ (case noCache c of None \<Rightarrow> [] | Some b \<Rightarrow> [json_prop ''noCache'' (json_bool b)]))"

section \<open>String helpers of the JavaScript runtime\<close>

text \<open>\<^verbatim>\<open>s.split(sep)\<close> for a separator of one character: never an empty array.\<close>

fun js_split :: "char \<Rightarrow> string \<Rightarrow> string list" where
  "js_split sep [] = [[]]"
| "js_split sep (c # cs) =
     (if c = sep then [] # js_split sep cs
      else (case js_split sep cs of [] \<Rightarrow> [[c]] | p # ps \<Rightarrow> (c # p) # ps))"

text \<open>\<^verbatim>\<open>s.split(sep)[0]\<close>.\<close>

definition split_first :: "char \<Rightarrow> string \<Rightarrow> string" where
  "split_first sep s = (case js_split sep s of [] \<Rightarrow> [] | p # ps \<Rightarrow> p)"

text \<open>
  The characters of a string, each with the bytes of its UTF-8 encoding: a byte
  \<^verbatim>\<open>10xxxxxx\<close> continues the character before it.
\<close>

definition continuation_byte :: "char \<Rightarrow> bool" where
  "continuation_byte c \<longleftrightarrow> 128 \<le> (of_char c :: nat) \<and> (of_char c :: nat) < 192"

definition js_chars :: "string \<Rightarrow> string list" where
  "js_chars s =
     (case foldr (\<lambda>c (pending, cs).
                    if continuation_byte c then (c # pending, cs) else ([], (c # pending) # cs))
                 s ([], []) of
        (pending, cs) \<Rightarrow> (if pending = [] then cs else pending # cs))"

text \<open>
  The white space and the line terminators of ECMAScript, which \<^verbatim>\<open>s.trim()\<close> and
  \<^verbatim>\<open>parseInt\<close> skip: tab, line feed, vertical tab, form feed, carriage return, space,
  U+00A0, U+1680, U+2000 to U+200A, U+2028, U+2029, U+202F, U+205F, U+3000 and U+FEFF.
\<close>

definition js_space :: "string \<Rightarrow> bool" where
  "js_space c \<longleftrightarrow>
     c \<in> set [[CHR 0x09], [CHR 0x0A], [CHR 0x0B], [CHR 0x0C], [CHR 0x0D], [CHR 0x20],
              [CHR 0xC2, CHR 0xA0], [CHR 0xE1, CHR 0x9A, CHR 0x80],
              [CHR 0xE2, CHR 0x80, CHR 0x80], [CHR 0xE2, CHR 0x80, CHR 0x81],
              [CHR 0xE2, CHR 0x80, CHR 0x82], [CHR 0xE2, CHR 0x80, CHR 0x83],
              [CHR 0xE2, CHR 0x80, CHR 0x84], [CHR 0xE2, CHR 0x80, CHR 0x85],
              [CHR 0xE2, CHR 0x80, CHR 0x86], [CHR 0xE2, CHR 0x80, CHR 0x87],
              [CHR 0xE2, CHR 0x80, CHR 0x88], [CHR 0xE2, CHR 0x80, CHR 0x89],
              [CHR 0xE2, CHR 0x80, CHR 0x8A], [CHR 0xE2, CHR 0x80, CHR 0xA8],
              [CHR 0xE2, CHR 0x80, CHR 0xA9], [CHR 0xE2, CHR 0x80, CHR 0xAF],
              [CHR 0xE2, CHR 0x81, CHR 0x9F], [CHR 0xE3, CHR 0x80, CHR 0x80],
              [CHR 0xEF, CHR 0xBB, CHR 0xBF]]"

definition js_trimStart :: "string \<Rightarrow> string" where
  "js_trimStart s = concat (dropWhile js_space (js_chars s))"

definition js_trim :: "string \<Rightarrow> string" where
  "js_trim s = concat (rev (dropWhile js_space (rev (dropWhile js_space (js_chars s)))))"

section \<open>Paths (the module \<^verbatim>\<open>path\<close> on POSIX)\<close>

text \<open>
  The parts of a path between its slashes, without the empty ones and the single dots,
  and \<^verbatim>\<open>normalizeString\<close> on them: two dots take away the part before them; where
  there is none to take away they are kept in a relative path (\<open>allowAboveRoot\<close>) and
  dropped in an absolute one.
\<close>

definition path_parts :: "string \<Rightarrow> string list" where
  "path_parts p = filter (\<lambda>s. s \<noteq> [] \<and> s \<noteq> ''.'') (js_split CHR ''/'' p)"

fun normalizeString :: "bool \<Rightarrow> string list \<Rightarrow> string list \<Rightarrow> string list" where
  "normalizeString allowAboveRoot res [] = res"
| "normalizeString allowAboveRoot res (s # rest) =
     (if s = ''..'' then
        (if res \<noteq> [] \<and> last res \<noteq> ''..''
         then normalizeString allowAboveRoot (butlast res) rest
         else if allowAboveRoot then normalizeString allowAboveRoot (res @ [''..'']) rest
         else normalizeString allowAboveRoot res rest)
      else normalizeString allowAboveRoot (res @ [s]) rest)"

text \<open>\<^verbatim>\<open>path.normalize\<close>, \<^verbatim>\<open>path.join\<close> and \<^verbatim>\<open>path.basename\<close>.\<close>

definition path_normalize :: "string \<Rightarrow> string" where
  "path_normalize p =
     (if p = [] then ''.''
      else
        (let isAbsolute = (take 1 p = ''/'');
             trailingSeparator = (take 1 (rev p) = ''/'');
             parts = normalizeString (\<not> isAbsolute) [] (path_parts p)
         in if parts = []
            then (if isAbsolute then ''/'' else if trailingSeparator then ''./'' else ''.'')
            else (if isAbsolute then ''/'' else []) @ join ''/'' parts
                   @ (if trailingSeparator then ''/'' else [])))"

definition path_join :: "string list \<Rightarrow> string" where
  "path_join args =
     (case filter (\<lambda>a. a \<noteq> []) args of
        [] \<Rightarrow> ''.''
      | a # as \<Rightarrow> path_normalize (join ''/'' (a # as)))"

definition path_basename :: "string \<Rightarrow> string" where
  "path_basename p =
     rev (takeWhile (\<lambda>c. c \<noteq> CHR ''/'') (dropWhile (\<lambda>c. c = CHR ''/'') (rev p)))"

text \<open>
  The file that a path names for the operating system: the parts of the absolute path,
  a relative path counted from the working directory. The parts are resolved as
  \<^verbatim>\<open>path.resolve\<close> resolves them and names are compared byte for byte; links and
  file systems that fold case are not modelled.
\<close>

definition path_resolve :: "string \<Rightarrow> string \<Rightarrow> string list" where
  "path_resolve dir p =
     normalizeString False [] (path_parts (if take 1 p = ''/'' then p else dir @ ''/'' @ p))"

section \<open>BuildCache\<close>

text \<open>
  What \<^verbatim>\<open>calculateSourceHash\<close> reads: the standard output of
  \<^verbatim>\<open>find . -name '*.go' -type f\<close> (\<open>None\<close> when the process fails), and for a path
  whether it exists and can be read.
\<close>

datatype fnode = Missing | Unreadable | Content string

record source_tree =
  find_stdout :: "string option"
  fs :: "string \<Rightarrow> fnode"

text \<open>
  The loop over \<^verbatim>\<open>goFiles\<close>: the bytes fed to \<^verbatim>\<open>hash.update\<close>, in order, or
  \<open>None\<close> when \<^verbatim>\<open>readFile\<close> throws.
\<close>

fun hashed_bytes :: "(string \<Rightarrow> fnode) \<Rightarrow> string list \<Rightarrow> string option" where
  "hashed_bytes f [] = Some []"
| "hashed_bytes f (file # rest) =
     (case f file of
        Missing \<Rightarrow> hashed_bytes f rest
      | Unreadable \<Rightarrow> None
      | Content content \<Rightarrow>
          (case hashed_bytes f rest of None \<Rightarrow> None | Some bs \<Rightarrow> Some (content @ bs)))"

definition goFiles :: "string \<Rightarrow> string list" where
  "goFiles stdout = filter (\<lambda>f. js_trim f \<noteq> []) (js_split CHR 0x0A stdout)"

definition calculateSourceHash :: "source_tree \<Rightarrow> string" where
  "calculateSourceHash src =
     (case find_stdout src of
        None \<Rightarrow> ''unknown''
      | Some stdout \<Rightarrow>
          (case hashed_bytes (fs src) (goFiles stdout) of
             None \<Rightarrow> ''unknown''
           | Some bs \<Rightarrow> take 12 (md5_hex bs)))"

definition getCacheKey :: "source_tree \<Rightarrow> BuildTarget \<Rightarrow> BuildConfig \<Rightarrow> string" where
  "getCacheKey src target config =
     platform target @ ''-'' @ calculateSourceHash src @ ''-'' @ md5_hex (JSON_stringify config)"

section \<open>Target resolution and configuration (cli.ts)\<close>

text \<open>
  The options object that \<^verbatim>\<open>commander\<close> hands to \<^verbatim>\<open>CLI.execute\<close>; an absent
  option is \<^verbatim>\<open>undefined\<close>, here \<open>None\<close>. The fields carry the prefix \<open>opt_\<close>
  because several share their name with a field of the configuration.
\<close>

record CLIOptions =
  opt_target :: "string list option"
  opt_os :: "string list option"
  opt_arch :: "string list option"
  opt_all :: "bool option"
  opt_version :: "string option"
  opt_buildVersion :: "string option"
  opt_ldflags :: "string option"
  opt_tags :: "string option"
  opt_cgo :: "bool option"
  opt_race :: "bool option"
  opt_compress :: "bool option"
  opt_checksum :: "bool option"
  opt_clean :: "bool option"
  opt_debug :: "bool option"
  opt_verbose :: "bool option"
  opt_output :: "string option"
  opt_name :: "string option"
  opt_static :: "bool option"
  opt_strip :: "bool option"
  opt_timeout :: "string option"
  opt_parallel :: "string option"
  opt_skipTests :: "bool option"
  opt_skipVerification :: "bool option"
  opt_noCache :: "bool option"

text \<open>
  What the process reads from its surroundings while it resolves the configuration:
  \<^verbatim>\<open>process.arch\<close>, \<^verbatim>\<open>process.platform\<close>, \<^verbatim>\<open>new Date().toISOString()\<close>, the
  value of \<^verbatim>\<open>GoUtils.getGitHash()\<close> and the value of \<^verbatim>\<open>GoUtils.generateRandomHash()\<close>.
  The clock is read once for the time stamp and once for every output name; one reading
  stands for all of them here.
\<close>

record runtime =
  process_arch :: string
  process_platform :: string
  now_iso :: string
  git_hash :: string
  random_hash :: string

text \<open>\<^verbatim>\<open>x || d\<close> on an optional string, \<^verbatim>\<open>x || false\<close> and \<^verbatim>\<open>x !== false\<close>.\<close>

definition str_or :: "string option \<Rightarrow> string \<Rightarrow> string" where
  "str_or x d = (case x of None \<Rightarrow> d | Some s \<Rightarrow> (if s = [] then d else s))"

definition or_false :: "bool option \<Rightarrow> bool" where
  "or_false x = (case x of None \<Rightarrow> False | Some b \<Rightarrow> b)"

definition not_false :: "bool option \<Rightarrow> bool" where
  "not_false x = (case x of None \<Rightarrow> True | Some b \<Rightarrow> b)"

text \<open>
  \<^verbatim>\<open>parseInt(s)\<close> without a radix: leading white space, an optional sign, the prefix
  \<^verbatim>\<open>0x\<close> for base 16, then the longest run of digits; \<^verbatim>\<open>NaN\<close> when that run is empty.
\<close>

definition digit_of :: "nat \<Rightarrow> char \<Rightarrow> nat option" where
  "digit_of radix c =
     (let n = (of_char c :: nat);
          d = (if 48 \<le> n \<and> n \<le> 57 then Some (n - 48)
               else if 97 \<le> n \<and> n \<le> 102 then Some (n - 87)
               else if 65 \<le> n \<and> n \<le> 70 then Some (n - 55)
               else None)
      in case d of None \<Rightarrow> None | Some v \<Rightarrow> (if v < radix then Some v else None))"

fun leading_digits :: "nat \<Rightarrow> string \<Rightarrow> nat list" where
  "leading_digits radix [] = []"
| "leading_digits radix (c # cs) =
     (case digit_of radix c of None \<Rightarrow> [] | Some v \<Rightarrow> v # leading_digits radix cs)"

definition digits_value :: "nat \<Rightarrow> nat list \<Rightarrow> int" where
  "digits_value radix ds = fold (\<lambda>d acc. acc * int radix + int d) ds 0"

definition parse_unsigned :: "string \<Rightarrow> number" where
  "parse_unsigned s =
     (let hex = (take 2 s = ''0x'' \<or> take 2 s = ''0X'');
          radix = (if hex then 16 else 10);
          ds = leading_digits radix (if hex then drop 2 s else s)
      in if ds = [] then NaN else Num (digits_value radix ds))"

definition parseInt :: "string \<Rightarrow> number" where
  "parseInt s =
     (case js_trimStart s of
        [] \<Rightarrow> NaN
      | c # cs \<Rightarrow>
          (if c = CHR ''-'' then (case parse_unsigned cs of NaN \<Rightarrow> NaN | Num v \<Rightarrow> Num (- v))
           else if c = CHR ''+'' then parse_unsigned cs
           else parse_unsigned (c # cs)))"

text \<open>\<^verbatim>\<open>GoUtils.parseTags\<close>.\<close>

definition parseTags :: "string option \<Rightarrow> string list" where
  "parseTags tgs =
     (case tgs of
        None \<Rightarrow> []
      | Some s \<Rightarrow>
          (if s = [] then []
           else filter (\<lambda>tag. length (js_trim tag) > 0) (js_split CHR '','' s)))"

text \<open>The constants of \<^verbatim>\<open>core/constants.ts\<close> and of \<^verbatim>\<open>determineTargets\<close>.\<close>

definition SUPPORTED_PLATFORMS :: "string list" where
  "SUPPORTED_PLATFORMS =
     [''linux/amd64'', ''linux/arm64'', ''linux/386'', ''darwin/amd64'', ''darwin/arm64'',
      ''windows/amd64'', ''windows/arm64'', ''windows/386'']"

definition NODE_TO_GO_ARCH :: "string \<rightharpoonup> string" where
  "NODE_TO_GO_ARCH =
     map_of [(''x64'', ''amd64''), (''ia32'', ''386''), (''arm64'', ''arm64''), (''arm'', ''arm'')]"

text \<open>
  \<^verbatim>\<open>NODE_TO_GO_ARCH[arch] || arch\<close> as the template literal prints it. The table is an
  object literal, so a name that it does not have itself is looked up on
  \<^verbatim>\<open>Object.prototype\<close>: there it finds a function, printed with its source text, or
  for \<^verbatim>\<open>__proto__\<close> the prototype itself.
\<close>

definition native_function :: "string \<Rightarrow> string" where
  "native_function name = ''function '' @ name @ ''() { [native code] }''"

definition Object_prototype :: "string \<rightharpoonup> string" where
  "Object_prototype =
     map_of
       ([(''constructor'', native_function ''Object''), (''__proto__'', ''[object Object]'')]
        @ map (\<lambda>name. (name, native_function name))
            [''__defineGetter__'', ''__defineSetter__'', ''hasOwnProperty'',
             ''__lookupGetter__'', ''__lookupSetter__'', ''isPrototypeOf'',
             ''propertyIsEnumerable'', ''toString'', ''valueOf'', ''toLocaleString''])"

definition goArch :: "string \<Rightarrow> string" where
  "goArch a =
     (case NODE_TO_GO_ARCH a of
        Some g \<Rightarrow> g
      | None \<Rightarrow> (case Object_prototype a of Some printed \<Rightarrow> printed | None \<Rightarrow> a))"

text \<open>\<^verbatim>\<open>CLI.generateOutputName\<close>; the date is the part of the ISO time before \<^verbatim>\<open>T\<close>.\<close>

definition generateOutputName ::
  "runtime \<Rightarrow> string \<Rightarrow> string \<Rightarrow> string \<Rightarrow> string \<Rightarrow> string \<Rightarrow> string" where
  "generateOutputName rt os' arch' version' outputDir' binaryName' =
     (let stamp = filter (\<lambda>c. c \<noteq> CHR ''-'') (split_first CHR ''T'' (now_iso rt));
          ext = (if os' = ''windows'' then ''.exe'' else [])
      in outputDir' @ ''/'' @ binaryName' @ ''-'' @ version' @ ''-'' @ os' @ ''-'' @ arch' @ ''-''
           @ stamp @ ext)"

text \<open>
  \<^verbatim>\<open>CLI.determineTargets\<close>, first the choice of the platform strings, then the
  \<^verbatim>\<open>map\<close> that splits each of them and throws on the first one it rejects.
\<close>

definition platform_strings :: "runtime \<Rightarrow> CLIOptions \<Rightarrow> string list" where
  "platform_strings rt options =
     (if opt_all options = Some True then SUPPORTED_PLATFORMS
      else (case opt_target options of
              Some (p # ps) \<Rightarrow> p # ps
            | _ \<Rightarrow>
               (case (opt_os options, opt_arch options) of
                  (Some oss, Some archs) \<Rightarrow>
                    concat (map (\<lambda>os'. map (\<lambda>arch'. os' @ ''/'' @ goArch arch') archs) oss)
                | (Some oss, None) \<Rightarrow> map (\<lambda>os'. os' @ ''/'' @ goArch (process_arch rt)) oss
                | (None, Some archs) \<Rightarrow>
                    map (\<lambda>arch'. process_platform rt @ ''/'' @ goArch arch') archs
                | (None, None) \<Rightarrow> [process_platform rt @ ''/'' @ goArch (process_arch rt)])))"

definition resolve_platform :: "runtime \<Rightarrow> CLIOptions \<Rightarrow> string \<Rightarrow> string + BuildTarget" where
  "resolve_platform rt options p =
     (case js_split CHR ''/'' p of
        os' # arch' # rest \<Rightarrow>
          (if os' = [] \<or> arch' = [] then Inl (''Invalid platform format: '' @ p)
           else Inr \<lparr> os = os', arch = arch',
                      output = generateOutputName rt os' arch' (str_or (opt_version options) ''1.0.0'')
                                 (str_or (opt_output options) ''dist'') (str_or (opt_name options) ''app''),
                      platform = p \<rparr>)
      | _ \<Rightarrow> Inl (''Invalid platform format: '' @ p))"

fun resolve_all :: "runtime \<Rightarrow> CLIOptions \<Rightarrow> string list \<Rightarrow> string + BuildTarget list" where
  "resolve_all rt options [] = Inr []"
| "resolve_all rt options (p # ps) =
     (case resolve_platform rt options p of
        Inl e \<Rightarrow> Inl e
      | Inr t \<Rightarrow> (case resolve_all rt options ps of Inl e \<Rightarrow> Inl e | Inr ts \<Rightarrow> Inr (t # ts)))"

definition determineTargets :: "runtime \<Rightarrow> CLIOptions \<Rightarrow> string + BuildTarget list" where
  "determineTargets rt options = resolve_all rt options (platform_strings rt options)"

text \<open>\<^verbatim>\<open>CLI.createBuildConfig\<close>.\<close>

definition createBuildConfig :: "runtime \<Rightarrow> CLIOptions \<Rightarrow> string + BuildConfig" where
  "createBuildConfig rt options =
     (case determineTargets rt options of
        Inl e \<Rightarrow> Inl e
      | Inr ts \<Rightarrow>
          Inr \<lparr> targets = ts,
                ldflags = str_or (opt_ldflags options) [],
                tags = parseTags (opt_tags options),
                cgo = or_false (opt_cgo options),
                race = or_false (opt_race options),
                compress = or_false (opt_compress options),
                version = str_or (opt_version options) ''1.0.0'',
                buildVersion = str_or (opt_buildVersion options) [],
                checksum = not_false (opt_checksum options),
                clean = not_false (opt_clean options),
                debug = or_false (opt_debug options),
                verbose = or_false (opt_verbose options),
                timestamp =
                  split_first CHR ''.''
                    (filter (\<lambda>c. c \<noteq> CHR ''-'' \<and> c \<noteq> CHR '':'') (now_iso rt)),
                gitHash = git_hash rt,
                randomHash = random_hash rt,
                outputDir = str_or (opt_output options) ''dist'',
                binaryName = str_or (opt_name options) ''app'',
                static = or_false (opt_static options),
                strip = or_false (opt_strip options),
                timeout = parseInt (str_or (opt_timeout options) ''300''),
                parallel = parseInt (str_or (opt_parallel options) ''2''),
                skipTests = or_false (opt_skipTests options),
                skipVerification = or_false (opt_skipVerification options),
                noCache = Some (or_false (opt_noCache options)) \<rparr>)"

section \<open>The state of a build\<close>

text \<open>
  What a build writes, and reads of what was written: the regular files of the file
  system, each under the parts of its absolute path, with the working directory of the
  process, and the three private arrays of \<^verbatim>\<open>GoBuilder\<close>. The cache directory and the
  output directory are part of the one file system; the sources and \<^verbatim>\<open>go.mod\<close>,
  which a build only reads, are kept apart in the source tree. A directory is there
  through the files in it; a path at which a directory stands is not taken to exist, so
  the paths that a build is given for its files are taken not to be directories.
\<close>

record world =
  cwd :: string
  files :: "string list \<rightharpoonup> string"
  builtBinaries :: "string list"
  checksumFiles :: "string list"
  failedBuilds :: "string list"

text \<open>
  The calls of \<^verbatim>\<open>fs-extra\<close> on the state: \<^verbatim>\<open>fs.readFile\<close> (\<open>None\<close> when it throws),
  \<^verbatim>\<open>fs.writeFile\<close> and the writing end of \<^verbatim>\<open>fs.copy\<close>, and \<^verbatim>\<open>fs.remove\<close>, which
  takes away the file at the path and every file below it.
\<close>

definition file_at :: "world \<Rightarrow> string \<Rightarrow> string list" where
  "file_at w p = path_resolve (cwd w) p"

definition readFile :: "world \<Rightarrow> string \<Rightarrow> string option" where
  "readFile w p = files w (file_at w p)"

definition writeFile :: "string \<Rightarrow> string \<Rightarrow> world \<Rightarrow> world" where
  "writeFile p content w = w\<lparr>files := (files w)(file_at w p \<mapsto> content)\<rparr>"

definition below :: "string list \<Rightarrow> string list \<Rightarrow> bool" where
  "below dir q \<longleftrightarrow> take (length dir) q = dir"

definition fs_remove :: "string \<Rightarrow> world \<Rightarrow> world" where
  "fs_remove p w = w\<lparr>files := (\<lambda>q. if below (file_at w p) q then None else files w q)\<rparr>"

text \<open>
  The cache methods on the state. The entry of a key is the file
  \<^verbatim>\<open>path.join(this.cacheDir, `${cacheKey}.bin`)\<close>; the key begins with the platform
  string of the target, so the file lies in a subdirectory of the cache directory, or
  outside of it when the platform string leads there. \<^verbatim>\<open>restoreFromCache\<close> is the
  path on which \<^verbatim>\<open>fs.copy\<close> succeeds; \<^verbatim>\<open>saveToCache\<close> is \<open>None\<close> when the copy throws
  because the binary is not there.
\<close>

definition cacheDir :: string where
  "cacheDir = ''.mkgo-cache''"

definition cacheFile :: "string \<Rightarrow> string" where
  "cacheFile cacheKey = path_join [cacheDir, cacheKey @ ''.bin'']"

definition cache_entry :: "world \<Rightarrow> string \<Rightarrow> string option" where
  "cache_entry w cacheKey = readFile w (cacheFile cacheKey)"

definition restoreFromCache :: "string \<Rightarrow> string \<Rightarrow> world \<Rightarrow> bool \<times> world" where
  "restoreFromCache cacheKey outputPath w =
     (case cache_entry w cacheKey of
        None \<Rightarrow> (False, w)
      | Some blob \<Rightarrow> (True, writeFile outputPath blob w))"

definition saveToCache :: "string \<Rightarrow> string \<Rightarrow> world \<Rightarrow> world option" where
  "saveToCache cacheKey binaryPath w =
     (case readFile w binaryPath of
        None \<Rightarrow> None
      | Some blob \<Rightarrow> Some (writeFile (cacheFile cacheKey) blob w))"

definition cleanCache :: "world \<Rightarrow> world" where
  "cleanCache w = fs_remove cacheDir w"

section \<open>GoBuilder\<close>

subsection \<open>The environment of the toolchain process\<close>

text \<open>
  The \<^verbatim>\<open>env\<close> option that \<^verbatim>\<open>executeGoBuild\<close> passes to \<^verbatim>\<open>execa\<close>. In an object
  literal a later property replaces an earlier one of the same name, so the spread of
  \<^verbatim>\<open>process.env\<close>, written last, is the right operand of \<open>++\<close>. \<^verbatim>\<open>execa\<close> then lays
  the option over \<^verbatim>\<open>process.env\<close> once more (\<^verbatim>\<open>extendEnv\<close>, on by default).
\<close>

definition env_option :: "(string \<rightharpoonup> string) \<Rightarrow> BuildTarget \<Rightarrow> BuildConfig \<Rightarrow> (string \<rightharpoonup> string)" where
  "env_option process_env target config =
     [''GOOS'' \<mapsto> os target, ''GOARCH'' \<mapsto> arch target,
      ''CGO_ENABLED'' \<mapsto> (if cgo config then ''1'' else ''0'')] ++ process_env"

definition toolchain_env :: "(string \<rightharpoonup> string) \<Rightarrow> BuildTarget \<Rightarrow> BuildConfig \<Rightarrow> (string \<rightharpoonup> string)" where
  "toolchain_env process_env target config = process_env ++ env_option process_env target config"

subsection \<open>One target's job\<close>

text \<open>
  \<^verbatim>\<open>buildTargetWithCache\<close> is an asynchronous function; between two of its \<^verbatim>\<open>await\<close>s
  the jobs of the same batch may run. A job is followed through the points at which it
  can be suspended: \<open>Pending\<close> before the cache has answered, \<open>Building\<close> from the
  start of the toolchain process until the job has ended (so the jobs in \<open>Building\<close>
  include every job whose toolchain process is running), and the three ways in which it
  ends. What the file
  system and the toolchain answer is not determined by the program, so each answer is a
  rule of its own:
  \<^item> \<open>cache_hit\<close>, \<open>cache_miss\<close>: \<^verbatim>\<open>restoreFromCache\<close> returns \<^verbatim>\<open>true\<close> or \<^verbatim>\<open>false\<close>;
  \<^item> \<open>cache_error\<close>: the entry exists but \<^verbatim>\<open>fs.copy\<close> throws, and the \<^verbatim>\<open>catch\<close> of
    \<^verbatim>\<open>restoreFromCache\<close> returns \<^verbatim>\<open>false\<close>;
  \<^item> \<open>built\<close>: the toolchain writes a binary, \<^verbatim>\<open>saveToCache\<close> stores it, the output path
    is pushed on \<^verbatim>\<open>builtBinaries\<close>;
  \<^item> \<open>toolchain_failed\<close>: \<^verbatim>\<open>execa\<close> rejects (exit code, timeout, no such program);
  \<^item> \<open>chmod_failed\<close>, \<open>save_failed\<close>: the binary is written but \<^verbatim>\<open>fs.chmod\<close>, or
    \<^verbatim>\<open>ensureDir\<close> or \<^verbatim>\<open>fs.copy\<close> in \<^verbatim>\<open>saveToCache\<close>, throws (\<^verbatim>\<open>ensureDir\<close>
    makes directories only, which leaves the files as they are).
  Every failure ends in the \<^verbatim>\<open>catch\<close> that pushes the platform on \<^verbatim>\<open>failedBuilds\<close>.
  The key is computed from the source tree \<open>src\<close>, which is the same for all the jobs
  of a build: what a build writes and removes is taken not to be among the files that
  \<^verbatim>\<open>find\<close> lists, nor to be \<^verbatim>\<open>go.mod\<close>.
\<close>

datatype phase = Pending | Building | Restored | CachePersisted | BuildFailed

definition terminal :: "phase \<Rightarrow> bool" where
  "terminal ph \<longleftrightarrow> ph = Restored \<or> ph = CachePersisted \<or> ph = BuildFailed"

definition push_built :: "string \<Rightarrow> world \<Rightarrow> world" where
  "push_built p w = w\<lparr>builtBinaries := builtBinaries w @ [p]\<rparr>"

definition push_failed :: "string \<Rightarrow> world \<Rightarrow> world" where
  "push_failed p w = w\<lparr>failedBuilds := failedBuilds w @ [p]\<rparr>"

definition write_output :: "BuildTarget \<Rightarrow> string \<Rightarrow> world \<Rightarrow> world" where
  "write_output target binary w = writeFile (output target) binary w"

inductive job_step ::
  "source_tree \<Rightarrow> BuildConfig \<Rightarrow> BuildTarget \<Rightarrow> phase \<times> world \<Rightarrow> phase \<times> world \<Rightarrow> bool"
  for src :: source_tree and config :: BuildConfig and target :: BuildTarget
where
  cache_hit:
    "restoreFromCache (getCacheKey src target config) (output target) w = (True, w') \<Longrightarrow>
     job_step src config target (Pending, w) (Restored, push_built (output target) w')"
| cache_miss:
    "restoreFromCache (getCacheKey src target config) (output target) w = (False, w') \<Longrightarrow>
     job_step src config target (Pending, w) (Building, w')"
| cache_error:
    "cache_entry w (getCacheKey src target config) = Some blob \<Longrightarrow>
     job_step src config target (Pending, w) (Building, w)"
| built:
    "saveToCache (getCacheKey src target config) (output target) (write_output target binary w)
       = Some w' \<Longrightarrow>
     job_step src config target (Building, w) (CachePersisted, push_built (output target) w')"
| toolchain_failed:
    "job_step src config target (Building, w) (BuildFailed, push_failed (platform target) w)"
| chmod_failed:
    "os target \<noteq> ''windows'' \<Longrightarrow>
     job_step src config target (Building, w)
       (BuildFailed, push_failed (platform target) (write_output target binary w))"
| save_failed:
    "job_step src config target (Building, w)
       (BuildFailed, push_failed (platform target) (write_output target binary w))"

subsection \<open>Batches\<close>

text \<open>
  The arithmetic of \<^verbatim>\<open>buildTargetsParallel\<close> on \<^verbatim>\<open>number\<close>: \<^verbatim>\<open>Math.min\<close>, \<^verbatim>\<open>+\<close> and
  \<^verbatim>\<open><\<close> with \<^verbatim>\<open>NaN\<close>, and \<^verbatim>\<open>Array.prototype.slice\<close>, which reads \<^verbatim>\<open>NaN\<close> as 0 and
  counts a negative index from the end.
\<close>

definition js_min :: "number \<Rightarrow> number \<Rightarrow> number" where
  "js_min x y =
     (case (x, y) of (Num a, Num b) \<Rightarrow> Num (min a b) | _ \<Rightarrow> NaN)"

definition js_add :: "number \<Rightarrow> number \<Rightarrow> number" where
  "js_add x y =
     (case (x, y) of (Num a, Num b) \<Rightarrow> Num (a + b) | _ \<Rightarrow> NaN)"

definition js_less :: "number \<Rightarrow> number \<Rightarrow> bool" where
  "js_less x y =
     (case (x, y) of (Num a, Num b) \<Rightarrow> a < b | _ \<Rightarrow> False)"

definition slice_index :: "nat \<Rightarrow> number \<Rightarrow> nat" where
  "slice_index len x =
     (case x of
        NaN \<Rightarrow> 0
      | Num k \<Rightarrow> (if k < 0 then nat (max (int len + k) 0) else min (nat k) len))"

definition js_slice :: "'a list \<Rightarrow> number \<Rightarrow> number \<Rightarrow> 'a list" where
  "js_slice xs start end' =
     (let a = slice_index (length xs) start; b = slice_index (length xs) end'
      in take (b - a) (drop a xs))"

definition parallelLimit :: "BuildConfig \<Rightarrow> nat \<Rightarrow> number" where
  "parallelLimit config cpus = js_min (parallel config) (Num (int cpus))"

text \<open>
  The \<^verbatim>\<open>for\<close> loop that fills \<^verbatim>\<open>batches\<close>, with \<^verbatim>\<open>i\<close> and the array built so far.
  Nothing bounds the number of its rounds, so it is a partial function: \<open>None\<close> is a
  loop that does not end.
\<close>

partial_function (option) batch_loop ::
  "BuildTarget list \<Rightarrow> number \<Rightarrow> number \<Rightarrow> BuildTarget list list \<Rightarrow> BuildTarget list list option" where
  "batch_loop ts limit i batches =
     (if js_less i (Num (int (length ts)))
      then batch_loop ts limit (js_add i limit) (batches @ [js_slice ts i (js_add i limit)])
      else Some batches)"

definition make_batches :: "BuildConfig \<Rightarrow> nat \<Rightarrow> BuildTarget list list option" where
  "make_batches config cpus = batch_loop (targets config) (parallelLimit config cpus) (Num 0) []"

text \<open>
  \<^verbatim>\<open>Promise.allSettled(batch.map(...))\<close>: every job of the batch is started, the jobs
  take their steps in any order, and the promise is fulfilled once each of them has
  ended. \<^verbatim>\<open>buildTargetWithCache\<close> catches every error, so no job rejects.
\<close>

type_synonym job = "BuildTarget \<times> phase"

inductive batch_step ::
  "source_tree \<Rightarrow> BuildConfig \<Rightarrow> job list \<times> world \<Rightarrow> job list \<times> world \<Rightarrow> bool"
  for src :: source_tree and config :: BuildConfig
where
  step:
    "i < length js \<Longrightarrow> js ! i = (t, ph) \<Longrightarrow> job_step src config t (ph, w) (ph', w') \<Longrightarrow>
     batch_step src config (js, w) (js[i := (t, ph')], w')"

definition start_batch :: "BuildTarget list \<Rightarrow> job list" where
  "start_batch b = map (\<lambda>t. (t, Pending)) b"

definition settled :: "job list \<Rightarrow> bool" where
  "settled js \<longleftrightarrow> list_all (\<lambda>j. terminal (snd j)) js"

definition allSettled ::
  "source_tree \<Rightarrow> BuildConfig \<Rightarrow> BuildTarget list \<Rightarrow> world \<Rightarrow> job list \<Rightarrow> world \<Rightarrow> bool" where
  "allSettled src config b w js w' \<longleftrightarrow>
     (batch_step src config)\<^sup>*\<^sup>* (start_batch b, w) (js, w') \<and> settled js"

text \<open>
  The second loop of \<^verbatim>\<open>buildTargetsParallel\<close>: the batches one after the other, each
  awaited before the next begins. The result keeps, per batch, how its jobs ended.
\<close>

inductive run_batches ::
  "source_tree \<Rightarrow> BuildConfig \<Rightarrow> BuildTarget list list \<Rightarrow> world \<Rightarrow> job list list \<times> world \<Rightarrow> bool"
  for src :: source_tree and config :: BuildConfig
where
  batches_done: "run_batches src config [] w ([], w)"
| batches_next:
    "allSettled src config b w js w1 \<Longrightarrow> run_batches src config bs w1 (jss, w2) \<Longrightarrow>
     run_batches src config (b # bs) w (js # jss, w2)"

text \<open>
  The instants of that loop: the jobs of the batch that is running and the state, at
  any moment between the start of the first batch and the end of the last.
\<close>

inductive instant ::
  "source_tree \<Rightarrow> BuildConfig \<Rightarrow> BuildTarget list list \<Rightarrow> world \<Rightarrow> job list \<times> world \<Rightarrow> bool"
  for src :: source_tree and config :: BuildConfig
where
  current: "(batch_step src config)\<^sup>*\<^sup>* (start_batch b, w) (js, w') \<Longrightarrow>
        instant src config (b # bs) w (js, w')"
| afterwards:
    "allSettled src config b w js w1 \<Longrightarrow> instant src config bs w1 x \<Longrightarrow>
     instant src config (b # bs) w x"

definition in_flight :: "job list \<Rightarrow> nat" where
  "in_flight js = length (filter (\<lambda>j. snd j = Building) js)"

subsection \<open>The build\<close>

text \<open>
  \<^verbatim>\<open>GoUtils.validateGoProject\<close> and \<^verbatim>\<open>GoBuilder.cleanBuildDir\<close>. No path exists
  for the empty string, so \<^verbatim>\<open>fs.pathExists\<close> keeps \<^verbatim>\<open>fs.remove\<close> from it.
\<close>

definition validateGoProject :: "source_tree \<Rightarrow> bool" where
  "validateGoProject src \<longleftrightarrow> fs src ''go.mod'' \<noteq> Missing"

definition cleanBuildDir :: "string \<Rightarrow> world \<Rightarrow> world" where
  "cleanBuildDir dir w = (if dir = [] then w else fs_remove dir w)"

text \<open>
  \<^verbatim>\<open>ChecksumUtil.writeChecksumFiles\<close>: the first loop reads every binary for the lines
  of \<^verbatim>\<open>checksums.txt\<close>, the second reads every binary again and writes its own file.
  \<open>None\<close> is a read that throws. The SHA-256 digest is not computed here: \<open>sha256\<close>
  stands for the function that gives the digest of a content in hexadecimal.
\<close>

fun checksum_lines :: "(string \<Rightarrow> string) \<Rightarrow> world \<Rightarrow> string list \<Rightarrow> string list option" where
  "checksum_lines sha256 w [] = Some []"
| "checksum_lines sha256 w (binary # rest) =
     (case readFile w binary of
        None \<Rightarrow> None
      | Some content \<Rightarrow>
          (case checksum_lines sha256 w rest of
             None \<Rightarrow> None
           | Some lines \<Rightarrow> Some ((sha256 content @ ''  '' @ path_basename binary) # lines)))"

definition individualFile :: "string \<Rightarrow> string \<Rightarrow> string" where
  "individualFile individualDir binary =
     path_join [individualDir, path_basename binary @ ''.sha256'']"

fun write_individual :: "(string \<Rightarrow> string) \<Rightarrow> string \<Rightarrow> string list \<Rightarrow> world \<Rightarrow> world option" where
  "write_individual sha256 individualDir [] w = Some w"
| "write_individual sha256 individualDir (binary # rest) w =
     (case readFile w binary of
        None \<Rightarrow> None
      | Some content \<Rightarrow>
          write_individual sha256 individualDir rest
            (writeFile (individualFile individualDir binary) (sha256 content) w))"

definition writeChecksumFiles ::
  "(string \<Rightarrow> string) \<Rightarrow> string list \<Rightarrow> string \<Rightarrow> world \<Rightarrow> (string list \<times> world) option" where
  "writeChecksumFiles sha256 bins outDir w =
     (let individualDir = path_join [outDir, ''checksums''];
          checksumFile = path_join [outDir, ''checksums.txt'']
      in case checksum_lines sha256 w bins of
           None \<Rightarrow> None
         | Some lines \<Rightarrow>
             (case write_individual sha256 individualDir bins
                     (writeFile checksumFile (join [CHR 0x0A] lines) w) of
                None \<Rightarrow> None
              | Some w' \<Rightarrow>
                  Some (checksumFile # map (individualFile individualDir) bins, w')))"

text \<open>\<^verbatim>\<open>GoBuilder.generateChecksums\<close> and \<^verbatim>\<open>GoBuilder.createBuildResult\<close>.\<close>

definition generateChecksums :: "(string \<Rightarrow> string) \<Rightarrow> BuildConfig \<Rightarrow> world \<Rightarrow> world option" where
  "generateChecksums sha256 config w =
     (case writeChecksumFiles sha256 (builtBinaries w) (outputDir config) w of
        None \<Rightarrow> None
      | Some (paths, w') \<Rightarrow> Some (w'\<lparr>checksumFiles := paths\<rparr>))"

definition createBuildResult :: "world \<Rightarrow> int \<Rightarrow> BuildResult" where
  "createBuildResult w d =
     \<lparr> success = (length (failedBuilds w) = 0),
       binaries = builtBinaries w,
       checksums = checksumFiles w,
       failed = failedBuilds w,
       duration = d \<rparr>"

text \<open>
  \<^verbatim>\<open>GoBuilder.build\<close>. The outcome is the rejection with its message or the
  \<^verbatim>\<open>BuildResult\<close>, then how the jobs of each batch ended, then the state the build
  leaves. The measured duration is left open, as is the message with which a read of
  \<^verbatim>\<open>writeChecksumFiles\<close> throws. A build in which \<^verbatim>\<open>fs.remove\<close>, \<^verbatim>\<open>fs.ensureDir\<close> or
  \<^verbatim>\<open>fs.writeFile\<close> throws has no rule.
\<close>

inductive build ::
  "source_tree \<Rightarrow> nat \<Rightarrow> BuildConfig \<Rightarrow> world \<Rightarrow>
     (string + BuildResult) \<times> job list list \<times> world \<Rightarrow> bool"
  for src :: source_tree and cpus :: nat and config :: BuildConfig
where
  not_a_go_project:
    "\<not> validateGoProject src \<Longrightarrow>
     build src cpus config w (Inl ''Not a Go project (go.mod not found)'', [], w)"
| finished:
    "validateGoProject src \<Longrightarrow>
     w1 = (if clean config then cleanCache (cleanBuildDir (outputDir config) w) else w) \<Longrightarrow>
     make_batches config cpus = Some bs \<Longrightarrow>
     run_batches src config bs w1 (jss, w2) \<Longrightarrow>
     (if checksum config \<and> length (builtBinaries w2) > 0
      then generateChecksums sha256 config w2 else Some w2) = Some w3 \<Longrightarrow>
     build src cpus config w (Inr (createBuildResult w3 d), jss, w3)"
| checksums_failed:
    "validateGoProject src \<Longrightarrow>
     w1 = (if clean config then cleanCache (cleanBuildDir (outputDir config) w) else w) \<Longrightarrow>
     make_batches config cpus = Some bs \<Longrightarrow>
     run_batches src config bs w1 (jss, w2) \<Longrightarrow>
     checksum config \<and> length (builtBinaries w2) > 0 \<Longrightarrow>
     generateChecksums sha256 config w2 = None \<Longrightarrow>
     build src cpus config w (Inl message, jss, w2)"

section \<open>The predicates of the statements\<close>

text \<open>
  A platform string has an operating system and an architecture when it begins with a
  non-empty part, a slash and a second non-empty part; what follows a second slash is
  not looked at.
\<close>

definition os_and_arch_present :: "string \<Rightarrow> bool" where
  "os_and_arch_present p \<longleftrightarrow>
     takeWhile (\<lambda>c. c \<noteq> CHR ''/'') p \<noteq> [] \<and>
     (case dropWhile (\<lambda>c. c \<noteq> CHR ''/'') p of
        [] \<Rightarrow> False
      | slash # r \<Rightarrow> takeWhile (\<lambda>c. c \<noteq> CHR ''/'') r \<noteq> [])"

text \<open>
  How a job ended, and what a list of jobs has to show for it: the output paths of the
  jobs that ended with a binary and the platforms of those that failed.
\<close>

definition succeeded :: "phase \<Rightarrow> bool" where
  "succeeded ph \<longleftrightarrow> ph = Restored \<or> ph = CachePersisted"

definition built_outputs :: "job list \<Rightarrow> string list" where
  "built_outputs js = map (\<lambda>j. output (fst j)) (filter (\<lambda>j. succeeded (snd j)) js)"

definition failed_platforms :: "job list \<Rightarrow> string list" where
  "failed_platforms js = map (\<lambda>j. platform (fst j)) (filter (\<lambda>j. snd j = BuildFailed) js)"

text \<open>
  The steps that the jobs of a batch can still take: two for a job that has not asked
  the cache, one for a job whose toolchain is running.
\<close>

definition rounds_left :: "job list \<Rightarrow> nat" where
  "rounds_left js =
     sum_list (map (\<lambda>j. case snd j of Pending \<Rightarrow> 2 | Building \<Rightarrow> 1 | _ \<Rightarrow> 0) js)"

text \<open>
  The specification's batches: consecutive pieces of \<open>n\<close> elements, the last one
  possibly shorter.
\<close>

function consecutive_batches :: "nat \<Rightarrow> 'a list \<Rightarrow> 'a list list" where
  "consecutive_batches n xs =
     (if n = 0 \<or> xs = [] then [] else take n xs # consecutive_batches n (drop n xs))"
  by pat_completeness auto
termination
  by (relation "measure (\<lambda>(n, xs). length xs)") auto

declare consecutive_batches.simps [simp del]

text \<open>
  The listing of \<^verbatim>\<open>find\<close>: the lines of its output from the first to the last, without
  those that are blank, which are the lines of white space only.
\<close>

function lines_of :: "string \<Rightarrow> string list" where
  "lines_of s =
     (case dropWhile (\<lambda>c. c \<noteq> CHR 0x0A) s of
        [] \<Rightarrow> [takeWhile (\<lambda>c. c \<noteq> CHR 0x0A) s]
      | newline # rest \<Rightarrow> takeWhile (\<lambda>c. c \<noteq> CHR 0x0A) s # lines_of rest)"
  by pat_completeness auto
termination
proof (relation "measure length")
  fix s :: string and newline rest
  assume "dropWhile (\<lambda>c. c \<noteq> CHR 0x0A) s = newline # rest"
  then have "length (newline # rest) \<le> length s"
    by (metis length_dropWhile_le)
  then show "(rest, s) \<in> measure length" by simp
qed simp

declare lines_of.simps [simp del]

definition blank :: "string \<Rightarrow> bool" where
  "blank l \<longleftrightarrow> list_all js_space (js_chars l)"

definition listed_files :: "string \<Rightarrow> string list" where
  "listed_files stdout = filter (\<lambda>l. \<not> blank l) (lines_of stdout)"

text \<open>
  What the source hash is the hash of: the contents of the listed files that are there,
  one after the other in the order of the listing, and nothing when \<^verbatim>\<open>find\<close> fails or
  one of the listed files cannot be read.
\<close>

definition listed_bytes :: "source_tree \<Rightarrow> string option" where
  "listed_bytes src =
     (case find_stdout src of
        None \<Rightarrow> None
      | Some stdout \<Rightarrow>
          (if list_ex (\<lambda>f. fs src f = Unreadable) (listed_files stdout) then None
           else Some (concat (map (\<lambda>f. case fs src f of Content c \<Rightarrow> c | _ \<Rightarrow> [])
                                 (listed_files stdout)))))"

text \<open>
  The files of the cache directory, and the files that a build of a configuration
  writes: the cache file and the output of each of its targets and, when it has
  binaries to take the checksums of, the checksum files that the builder has recorded.
\<close>

definition in_cache_dir :: "world \<Rightarrow> string list \<Rightarrow> bool" where
  "in_cache_dir w q \<longleftrightarrow> below (file_at w cacheDir) q"


section \<open>Example inputs\<close>

text \<open>
  \<^verbatim>\<open>mkgo build --target linux/amd64 darwin/arm64\<close> with the defaults that the option
  declarations of \<^verbatim>\<open>setupCLI\<close> give, on a 64-bit Linux host.
\<close>

definition ex_options :: CLIOptions where
  "ex_options =
     \<lparr> opt_target = Some [''linux/amd64'', ''darwin/arm64''], opt_os = None, opt_arch = None,
       opt_all = Some False, opt_version = Some ''1.0.0'', opt_buildVersion = None,
       opt_ldflags = None, opt_tags = None, opt_cgo = Some False, opt_race = Some False,
       opt_compress = Some False, opt_checksum = Some True, opt_clean = Some True,
       opt_debug = Some False, opt_verbose = Some False, opt_output = Some ''dist'',
       opt_name = Some ''app'', opt_static = Some False, opt_strip = Some False,
       opt_timeout = Some ''300'', opt_parallel = Some ''2'', opt_skipTests = Some False,
       opt_skipVerification = Some False, opt_noCache = None \<rparr>"

definition ex_runtime :: runtime where
  "ex_runtime =
     \<lparr> process_arch = ''x64'', process_platform = ''linux'',
       now_iso = ''2025-01-01T12:00:00.000Z'', git_hash = ''abc1234'',
       random_hash = ''0123456789'' \<rparr>"

text \<open>The same host five seconds later, with the next random hash.\<close>

definition ex_runtime_later :: runtime where
  "ex_runtime_later =
     ex_runtime\<lparr> now_iso := ''2025-01-01T12:00:05.000Z'', random_hash := ''9876543210'' \<rparr>"

definition linux_amd64 :: BuildTarget where
  "linux_amd64 =
     \<lparr> os = ''linux'', arch = ''amd64'', output = ''dist/app-1.0.0-linux-amd64-20250101'',
       platform = ''linux/amd64'' \<rparr>"

definition darwin_arm64 :: BuildTarget where
  "darwin_arm64 =
     \<lparr> os = ''darwin'', arch = ''arm64'', output = ''dist/app-1.0.0-darwin-arm64-20250101'',
       platform = ''darwin/arm64'' \<rparr>"

definition ex_config :: BuildConfig where
  "ex_config =
     \<lparr> targets = [linux_amd64, darwin_arm64], ldflags = [], tags = [], cgo = False,
       race = False, compress = False, version = ''1.0.0'', buildVersion = [],
       checksum = True, clean = True, debug = False, verbose = False,
       timestamp = ''20250101T120000'', gitHash = ''abc1234'', randomHash = ''0123456789'',
       outputDir = ''dist'', binaryName = ''app'', static = False, strip = False,
       timeout = Num 300, parallel = Num 2, skipTests = False, skipVerification = False,
       noCache = Some False \<rparr>"

text \<open>A project of two source files, and the same project listed in the other order.\<close>

definition ex_fs :: "string \<Rightarrow> fnode" where
  "ex_fs p =
     (if p = ''go.mod'' then Content ''module app''
      else if p = ''./main.go'' then Content ''package main''
      else if p = ''./util.go'' then Content ''package util''
      else Missing)"

definition ex_tree :: source_tree where
  "ex_tree = \<lparr> find_stdout = Some ''./main.go\<newline>./util.go'', fs = ex_fs \<rparr>"

definition ex_tree_reordered :: source_tree where
  "ex_tree_reordered =
     \<lparr> find_stdout = Some ''./util.go\<newline>./main.go'', fs = ex_fs \<rparr>"

text \<open>
  A project of two source files of which one begins as the other, in the two orders in
  which \<^verbatim>\<open>find\<close> can list them.
\<close>

definition ex_fs_alike :: "string \<Rightarrow> fnode" where
  "ex_fs_alike p =
     (if p = ''go.mod'' then Content ''module app''
      else if p = ''./a.go'' then Content ''a''
      else if p = ''./b.go'' then Content ''aa''
      else Missing)"

definition ex_tree_alike :: source_tree where
  "ex_tree_alike = \<lparr> find_stdout = Some ''./a.go\<newline>./b.go'', fs = ex_fs_alike \<rparr>"

definition ex_tree_alike_reordered :: source_tree where
  "ex_tree_alike_reordered =
     \<lparr> find_stdout = Some ''./b.go\<newline>./a.go'', fs = ex_fs_alike \<rparr>"

text \<open>
  A builder that has not built anything in the working directory \<^verbatim>\<open>/home/dev/app\<close>,
  with no output and no cache yet, and with a cache directory that holds an entry.
\<close>

definition fresh :: world where
  "fresh =
     \<lparr> cwd = ''/home/dev/app'', files = Map.empty, builtBinaries = [], checksumFiles = [],
       failedBuilds = [] \<rparr>"

definition cached :: world where
  "cached =
     fresh\<lparr> files :=
       [[''home'', ''dev'', ''app'', ''.mkgo-cache'', ''old-key.bin''] \<mapsto> ''old binary''] \<rparr>"

text \<open>
  The state after a batch of the two example targets on a fresh builder, in which the
  toolchain wrote \<open>ELF\<close> for the first target and failed for the second.
\<close>

definition after_one_failure :: world where
  "after_one_failure =
     \<lparr> cwd = ''/home/dev/app'',
       files =
         [[''home'', ''dev'', ''app'', ''dist'', ''app-1.0.0-linux-amd64-20250101''] \<mapsto> ''ELF'',
          [''home'', ''dev'', ''app'', ''.mkgo-cache'', ''linux'',
           ''amd64-e1dfb8155737-eb42387a8f6ec268f6f1ee5489460f33.bin''] \<mapsto> ''ELF''],
       builtBinaries = [''dist/app-1.0.0-linux-amd64-20250101''], checksumFiles = [],
       failedBuilds = [''darwin/arm64''] \<rparr>"

text \<open>
  The state after the build of \<open>ex_config\<close> that starts from \<open>cached\<close> and runs that
  batch, with the checksum files that \<^verbatim>\<open>writeChecksumFiles\<close> writes for the one
  binary; \<open>ex_sha256\<close> is the digest of \<open>ELF\<close>.
\<close>

definition ex_sha256 :: string where
  "ex_sha256 = ''706abe3c90152075e656b661079730facf323f3ebccda7547ee1935c90845a09''"

definition after_clean_build :: world where
  "after_clean_build =
     after_one_failure
       \<lparr> files := (files after_one_failure)
            ([''home'', ''dev'', ''app'', ''dist'', ''checksums.txt'']
               \<mapsto> ex_sha256 @ ''  app-1.0.0-linux-amd64-20250101'',
             [''home'', ''dev'', ''app'', ''dist'', ''checksums'',
              ''app-1.0.0-linux-amd64-20250101.sha256''] \<mapsto> ex_sha256),
         checksumFiles :=
           [''dist/checksums.txt'', ''dist/checksums/app-1.0.0-linux-amd64-20250101.sha256''] \<rparr>"

section \<open>Target resolution\<close>

lemma js_split_unfold:
  "js_split sep s =
     takeWhile (\<lambda>c. c \<noteq> sep) s #
       (case dropWhile (\<lambda>c. c \<noteq> sep) s of [] \<Rightarrow> [] | c # r \<Rightarrow> js_split sep r)"
proof (induction s)
  case Nil
  show ?case by simp
next
  case (Cons c cs)
  show ?case
  proof (cases "c = sep")
    case True
    then show ?thesis by simp
  next
    case False
    with Cons show ?thesis by (simp split: list.splits)
  qed
qed

lemma resolve_platform_ok:
  "(\<exists>t. resolve_platform rt options p = Inr t) \<longleftrightarrow> os_and_arch_present p"
proof -
  define a where "a = takeWhile (\<lambda>c. c \<noteq> CHR ''/'') p"
  define d where "d = dropWhile (\<lambda>c. c \<noteq> CHR ''/'') p"
  have split: "js_split CHR ''/'' p = a # (case d of [] \<Rightarrow> [] | c # r \<Rightarrow> js_split CHR ''/'' r)"
    unfolding a_def d_def by (rule js_split_unfold)
  have present: "os_and_arch_present p \<longleftrightarrow>
      a \<noteq> [] \<and> (case d of [] \<Rightarrow> False | c # r \<Rightarrow> takeWhile (\<lambda>c. c \<noteq> CHR ''/'') r \<noteq> [])"
    unfolding a_def d_def os_and_arch_present_def ..
  show ?thesis
  proof (cases d)
    case Nil
    with split present show ?thesis
      by (simp add: resolve_platform_def)
  next
    case (Cons c r)
    with split present js_split_unfold [of "CHR ''/''" r] show ?thesis
      by (simp add: resolve_platform_def)
  qed
qed

lemma resolve_platform_error:
  "resolve_platform rt options p = Inl e \<Longrightarrow> e = ''Invalid platform format: '' @ p"
  by (auto simp: resolve_platform_def split: list.splits if_splits)

lemma resolve_platform_platform:
  "resolve_platform rt options p = Inr t \<Longrightarrow> platform t = p"
  by (auto simp: resolve_platform_def split: list.splits if_splits)

lemma resolve_all_platforms:
  "resolve_all rt options ps = Inr ts \<Longrightarrow> map platform ts = ps"
proof (induction ps arbitrary: ts)
  case Nil
  then show ?case by simp
next
  case (Cons p ps)
  then show ?case
    by (auto split: sum.splits dest: resolve_platform_platform)
qed

lemma resolve_all_Inl:
  "resolve_all rt options ps = Inl e \<Longrightarrow>
   \<exists>p \<in> set ps. \<not> os_and_arch_present p \<and> e = ''Invalid platform format: '' @ p"
proof (induction ps)
  case Nil
  then show ?case by simp
next
  case (Cons p ps)
  show ?case
  proof (cases "resolve_platform rt options p")
    case (Inl e')
    with Cons.prems have "e' = e" by simp
    moreover from Inl have "\<not> os_and_arch_present p"
      using resolve_platform_ok [of rt options p] by auto
    moreover from Inl have "e' = ''Invalid platform format: '' @ p"
      by (rule resolve_platform_error)
    ultimately show ?thesis by auto
  next
    case (Inr t)
    with Cons.prems have "resolve_all rt options ps = Inl e"
      by (auto split: sum.splits)
    with Cons.IH show ?thesis by auto
  qed
qed

lemma resolve_all_Inr:
  "(\<exists>ts. resolve_all rt options ps = Inr ts) \<longleftrightarrow> (\<forall>p \<in> set ps. os_and_arch_present p)"
proof (induction ps)
  case Nil
  show ?case by simp
next
  case (Cons p ps)
  show ?case
  proof (cases "resolve_platform rt options p")
    case (Inl e)
    with resolve_platform_ok [of rt options p] show ?thesis by auto
  next
    case (Inr t)
    with resolve_platform_ok [of rt options p] Cons show ?thesis
      by (auto split: sum.splits)
  qed
qed

text \<open>
  C7, as the code has it. \<^verbatim>\<open>determineTargets\<close> turns each platform string of the
  directives into one target, in order, and removes nothing: the platform labels of
  the resolved list are the platform strings themselves, so the list is free of
  duplicate labels exactly when the directives name no platform twice.
\<close>

theorem determineTargets_keeps_every_platform_string:
  assumes "determineTargets rt options = Inr ts"
  shows "map platform ts = platform_strings rt options
         \<and> (distinct (map platform ts) \<longleftrightarrow> distinct (platform_strings rt options))"
proof -
  from assms have "map platform ts = platform_strings rt options"
    unfolding determineTargets_def by (rule resolve_all_platforms)
  then show ?thesis by simp
qed

lemma ex_options_targets:
  "determineTargets ex_runtime ex_options = Inr [linux_amd64, darwin_arm64]"
  by code_simp

theorem determineTargets_keeps_every_platform_string_witness:
  "map platform [linux_amd64, darwin_arm64] = platform_strings ex_runtime ex_options
   \<and> (distinct (map platform [linux_amd64, darwin_arm64])
        \<longleftrightarrow> distinct (platform_strings ex_runtime ex_options))"
  using determineTargets_keeps_every_platform_string [OF ex_options_targets] .

text \<open>
  C7, as the specification states it, fails: naming a platform twice gives two targets
  with the same label.
\<close>

theorem duplicate_targets_counterexample:
  "(case determineTargets ex_runtime
           (ex_options\<lparr>opt_target := Some [''linux/amd64'', ''linux/amd64'']\<rparr>) of
      Inl e \<Rightarrow> False
    | Inr ts \<Rightarrow> map platform ts = [''linux/amd64'', ''linux/amd64''] \<and> \<not> distinct (map platform ts))"
  by code_simp

text \<open>
  C8, as the code has it. Target resolution is rejected exactly when one of the platform
  strings lacks a non-empty operating system or a non-empty architecture; the message
  then names such a string, and no configuration is made, so nothing is scheduled.
  Nothing is compared with the supported platforms.
\<close>

theorem determineTargets_rejects_missing_parts:
  "((\<exists>e. determineTargets rt options = Inl e)
      \<longleftrightarrow> (\<exists>p \<in> set (platform_strings rt options). \<not> os_and_arch_present p))
   \<and> (\<forall>e. determineTargets rt options = Inl e \<longrightarrow>
         createBuildConfig rt options = Inl e
         \<and> (\<exists>p \<in> set (platform_strings rt options).
               \<not> os_and_arch_present p \<and> e = ''Invalid platform format: '' @ p))"
proof -
  have rejected: "\<exists>p \<in> set (platform_strings rt options).
      \<not> os_and_arch_present p \<and> e = ''Invalid platform format: '' @ p"
    if "determineTargets rt options = Inl e" for e
    using that unfolding determineTargets_def by (rule resolve_all_Inl)
  have "(\<exists>e. determineTargets rt options = Inl e) \<longleftrightarrow> \<not> (\<exists>ts. determineTargets rt options = Inr ts)"
    by (cases "determineTargets rt options") auto
  also have "\<dots> \<longleftrightarrow> (\<exists>p \<in> set (platform_strings rt options). \<not> os_and_arch_present p)"
    unfolding determineTargets_def by (simp add: resolve_all_Inr)
  finally have iff: "(\<exists>e. determineTargets rt options = Inl e)
      \<longleftrightarrow> (\<exists>p \<in> set (platform_strings rt options). \<not> os_and_arch_present p)" .
  have "createBuildConfig rt options = Inl e" if "determineTargets rt options = Inl e" for e
    using that by (simp add: createBuildConfig_def)
  with iff rejected show ?thesis by blast
qed

lemma ex_options_rejected:
  "determineTargets ex_runtime (ex_options\<lparr>opt_target := Some [''linux'']\<rparr>)
     = Inl ''Invalid platform format: linux''"
  by code_simp

theorem determineTargets_rejects_missing_parts_witness:
  "\<exists>p \<in> set (platform_strings ex_runtime (ex_options\<lparr>opt_target := Some [''linux'']\<rparr>)).
     \<not> os_and_arch_present p \<and> ''Invalid platform format: linux'' = ''Invalid platform format: '' @ p"
  using determineTargets_rejects_missing_parts
          [of ex_runtime "ex_options\<lparr>opt_target := Some [''linux'']\<rparr>"]
        ex_options_rejected
  by blast

text \<open>
  C8, as the specification states it, fails twice: a pair outside the supported
  platforms is resolved, and so is a string of three parts.
\<close>

theorem unsupported_platform_counterexample:
  "determineTargets ex_runtime (ex_options\<lparr>opt_target := Some [''plan9/mips'']\<rparr>)
     = Inr [\<lparr> os = ''plan9'', arch = ''mips'', output = ''dist/app-1.0.0-plan9-mips-20250101'',
               platform = ''plan9/mips'' \<rparr>]
   \<and> ''plan9/mips'' \<notin> set SUPPORTED_PLATFORMS
   \<and> determineTargets ex_runtime (ex_options\<lparr>opt_target := Some [''linux/amd64/extra'']\<rparr>)
     = Inr [\<lparr> os = ''linux'', arch = ''amd64'', output = ''dist/app-1.0.0-linux-amd64-20250101'',
               platform = ''linux/amd64/extra'' \<rparr>]"
  by code_simp

section \<open>The toolchain's environment\<close>

text \<open>
  C9 at an input where the code departs from it: the parent process has \<^verbatim>\<open>GOOS\<close>,
  \<^verbatim>\<open>GOARCH\<close> and \<^verbatim>\<open>CGO_ENABLED\<close> in its environment and the target is
  \<^verbatim>\<open>darwin/arm64\<close> without cgo. The toolchain is started with the parent's three
  values, not with the target's.
\<close>

theorem inherited_variables_override_target:
  "os darwin_arm64 = ''darwin'' \<and> arch darwin_arm64 = ''arm64'' \<and> cgo ex_config = False
   \<and> toolchain_env [''GOOS'' \<mapsto> ''linux'', ''GOARCH'' \<mapsto> ''amd64'', ''CGO_ENABLED'' \<mapsto> ''1'']
         darwin_arm64 ex_config ''GOOS'' = Some ''linux''
   \<and> toolchain_env [''GOOS'' \<mapsto> ''linux'', ''GOARCH'' \<mapsto> ''amd64'', ''CGO_ENABLED'' \<mapsto> ''1'']
         darwin_arm64 ex_config ''GOARCH'' = Some ''amd64''
   \<and> toolchain_env [''GOOS'' \<mapsto> ''linux'', ''GOARCH'' \<mapsto> ''amd64'', ''CGO_ENABLED'' \<mapsto> ''1'']
         darwin_arm64 ex_config ''CGO_ENABLED'' = Some ''1''"
  by (simp add: toolchain_env_def env_option_def darwin_arm64_def ex_config_def)

section \<open>Hashing\<close>

text \<open>The test suite of RFC 1321, A.5, in part.\<close>

lemma md5_test_suite:
  "md5_hex [] = ''d41d8cd98f00b204e9800998ecf8427e''"
  "md5_hex ''abc'' = ''900150983cd24fb0d6963f7d28e17f72''"
  "md5_hex ''12345678901234567890123456789012345678901234567890123456789012345678901234567890''
     = ''57edf4a22be3c955ac49da2e2107b67a''"
  by code_simp+

lemma hashed_bytes_listed:
  "hashed_bytes f listing =
     (if list_ex (\<lambda>file. f file = Unreadable) listing then None
      else Some (concat (map (\<lambda>file. case f file of Content c \<Rightarrow> c | _ \<Rightarrow> []) listing)))"
  by (induction listing) (simp_all split: fnode.splits)

lemma js_chars_groups:
  "[] \<notin> set (snd (foldr (\<lambda>c (pending, cs).
        if continuation_byte c then (c # pending, cs) else ([], (c # pending) # cs)) s ([], [])))"
  by (induction s) (auto simp: case_prod_beta)

lemma js_chars_nonempty: "[] \<notin> set (js_chars s)"
proof -
  let ?step = "\<lambda>c (pending, cs).
    if continuation_byte c then (c # pending, cs) else ([], (c # pending) # cs)"
  obtain pending cs where groups: "foldr ?step s ([], []) = (pending, cs)"
    by (cases "foldr ?step s ([], [])")
  with js_chars_groups [of s] have "[] \<notin> set cs" by simp
  with groups show ?thesis by (simp add: js_chars_def)
qed

lemma js_trim_blank: "js_trim l = [] \<longleftrightarrow> blank l"
proof (cases "list_all js_space (js_chars l)")
  case True
  then have none: "dropWhile js_space (js_chars l) = []" by (simp add: list_all_iff)
  have "js_trim l = []" unfolding js_trim_def none by simp
  with True show ?thesis by (simp add: blank_def)
next
  case False
  then obtain g rest where front: "dropWhile js_space (js_chars l) = g # rest" and g: "\<not> js_space g"
    by (metis (full_types) dropWhile_eq_Nil_conv hd_dropWhile list.exhaust_sel list_all_iff)
  from front have "g \<in> set (js_chars l)" by (metis list.set_intros(1) set_dropWhileD)
  with js_chars_nonempty have "g \<noteq> []" by metis
  moreover from g have "dropWhile js_space (rev rest @ [g]) = dropWhile js_space (rev rest) @ [g]"
    by (simp add: dropWhile_append3)
  ultimately have "js_trim l \<noteq> []" by (simp add: js_trim_def front)
  with False show ?thesis by (simp add: blank_def)
qed

lemma lines_of_js_split: "js_split CHR 0x0A s = lines_of s"
proof (induction s rule: lines_of.induct)
  case (1 s)
  show ?case
  proof (cases "dropWhile (\<lambda>c. c \<noteq> CHR 0x0A) s")
    case Nil
    have "js_split CHR 0x0A s = [takeWhile (\<lambda>c. c \<noteq> CHR 0x0A) s]"
      by (subst js_split_unfold) (simp only: Nil list.case)
    moreover have "lines_of s = [takeWhile (\<lambda>c. c \<noteq> CHR 0x0A) s]"
      by (subst lines_of.simps) (simp only: Nil list.case)
    ultimately show ?thesis by simp
  next
    case (Cons newline rest)
    have "js_split CHR 0x0A s = takeWhile (\<lambda>c. c \<noteq> CHR 0x0A) s # js_split CHR 0x0A rest"
      by (subst js_split_unfold) (simp only: Cons list.case)
    moreover have "lines_of s = takeWhile (\<lambda>c. c \<noteq> CHR 0x0A) s # lines_of rest"
      by (subst lines_of.simps) (simp only: Cons list.case)
    ultimately show ?thesis using 1 [OF Cons] by simp
  qed
qed

lemma goFiles_listed: "goFiles stdout = listed_files stdout"
  by (simp add: goFiles_def listed_files_def lines_of_js_split js_trim_blank)

lemma ex_tree_goFiles:
  "goFiles ''./main.go\<newline>./util.go'' = [''./main.go'', ''./util.go'']"
  "goFiles ''./util.go\<newline>./main.go'' = [''./util.go'', ''./main.go'']"
  "goFiles ''./a.go\<newline>./b.go'' = [''./a.go'', ''./b.go'']"
  "goFiles ''./b.go\<newline>./a.go'' = [''./b.go'', ''./a.go'']"
  by code_simp+

lemma ex_tree_hash: "calculateSourceHash ex_tree = ''e1dfb8155737''"
  by code_simp

lemma ex_tree_reordered_hash: "calculateSourceHash ex_tree_reordered = ''6da59249298d''"
  by code_simp

lemma ex_tree_alike_bytes:
  "listed_bytes ex_tree_alike = Some ''aaa''"
  "listed_bytes ex_tree_alike_reordered = Some ''aaa''"
  by (simp_all add: listed_bytes_def ex_tree_alike_def ex_tree_alike_reordered_def
        goFiles_listed [symmetric] ex_tree_goFiles ex_fs_alike_def)

lemma ex_tree_alike_digest: "take 12 (md5_hex ''aaa'') = ''47bce5c74f58''"
  by code_simp

text \<open>
  C2, as the code has it. The source hash is the first twelve digits of the MD5 digest
  of the contents of the listed files, taken one after the other in the order of the
  lines that \<^verbatim>\<open>find\<close> prints (a listed file that is no longer there adds nothing), and
  \<^verbatim>\<open>unknown\<close> when \<^verbatim>\<open>find\<close> fails or a listed file cannot be read; nothing sorts the
  list. So two runs give the same source hash whenever these contents, in the order of
  the listing, are the same bytes.
\<close>

theorem source_hash_of_same_listing:
  "calculateSourceHash src =
     (case listed_bytes src of None \<Rightarrow> ''unknown'' | Some bytes \<Rightarrow> take 12 (md5_hex bytes))
   \<and> (\<forall>src'. listed_bytes src' = listed_bytes src \<longrightarrow>
          calculateSourceHash src' = calculateSourceHash src)"
proof -
  have hash: "calculateSourceHash t =
      (case listed_bytes t of None \<Rightarrow> ''unknown'' | Some bytes \<Rightarrow> take 12 (md5_hex bytes))"
    for t
    by (simp add: calculateSourceHash_def listed_bytes_def hashed_bytes_listed goFiles_listed
          split: option.splits)
  then show ?thesis by simp
qed

theorem source_hash_of_same_listing_witness:
  "listed_bytes ex_tree_alike_reordered = listed_bytes ex_tree_alike
   \<and> calculateSourceHash ex_tree_alike = ''47bce5c74f58''
   \<and> calculateSourceHash ex_tree_alike_reordered = ''47bce5c74f58''"
  using source_hash_of_same_listing [of ex_tree_alike] ex_tree_alike_bytes ex_tree_alike_digest
  by simp

text \<open>
  C2, as the specification states it, fails: the same files with the same content, listed
  by \<^verbatim>\<open>find\<close> in the other order, have another source hash.
\<close>

theorem listing_order_counterexample:
  "fs ex_tree_reordered = fs ex_tree
   \<and> find_stdout ex_tree = Some ''./main.go\<newline>./util.go''
   \<and> find_stdout ex_tree_reordered = Some ''./util.go\<newline>./main.go''
   \<and> goFiles ''./util.go\<newline>./main.go''
       = rev (goFiles ''./main.go\<newline>./util.go'')
   \<and> calculateSourceHash ex_tree = ''e1dfb8155737''
   \<and> calculateSourceHash ex_tree_reordered = ''6da59249298d''"
  by (simp add: ex_tree_hash ex_tree_reordered_hash ex_tree_goFiles)
     (simp add: ex_tree_def ex_tree_reordered_def)

section \<open>Cache keys\<close>

lemma ex_options_config:
  "createBuildConfig ex_runtime ex_options = Inr ex_config"
  by code_simp

lemma ex_options_config_later:
  "createBuildConfig ex_runtime_later ex_options
     = Inr (ex_config\<lparr>timestamp := ''20250101T120005'', randomHash := ''9876543210''\<rparr>)"
  by code_simp

lemma ex_config_hash:
  "md5_hex (JSON_stringify ex_config) = ''eb42387a8f6ec268f6f1ee5489460f33''"
  by code_simp

lemma ex_config_later_hash:
  "md5_hex (JSON_stringify (ex_config\<lparr>timestamp := ''20250101T120005'', randomHash := ''9876543210''\<rparr>))
     = ''b6736535bd1f79a988d4264f23d1c722''"
  by code_simp

lemma ex_config_noCache_hash:
  "md5_hex (JSON_stringify (ex_config\<lparr>noCache := Some True\<rparr>)) = ''8b30a92b59d803079dcd1894d61343c9''"
  by code_simp

text \<open>
  C1 at an input where the code departs from it: the command of \<open>ex_options\<close> is run
  twice, five seconds apart, on the unchanged project \<open>ex_tree\<close>. The two
  configurations differ in \<^verbatim>\<open>timestamp\<close> and \<^verbatim>\<open>randomHash\<close> only, which the user does
  not supply; both are hashed, so the key of \<^verbatim>\<open>linux/amd64\<close> in the second run is not
  the key under which the first run stored the binary.
\<close>

theorem rebuild_has_another_cache_key:
  "createBuildConfig ex_runtime ex_options = Inr ex_config
   \<and> createBuildConfig ex_runtime_later ex_options
       = Inr (ex_config\<lparr>timestamp := ''20250101T120005'', randomHash := ''9876543210''\<rparr>)
   \<and> getCacheKey ex_tree linux_amd64 ex_config
       = ''linux/amd64-e1dfb8155737-eb42387a8f6ec268f6f1ee5489460f33''
   \<and> getCacheKey ex_tree linux_amd64
         (ex_config\<lparr>timestamp := ''20250101T120005'', randomHash := ''9876543210''\<rparr>)
       = ''linux/amd64-e1dfb8155737-b6736535bd1f79a988d4264f23d1c722''"
  by (simp add: ex_options_config ex_options_config_later getCacheKey_def ex_tree_hash
        ex_config_hash ex_config_later_hash)
     (simp add: linux_amd64_def)

section \<open>The paths of the examples\<close>

lemma ex_tree_is_go_project: "validateGoProject ex_tree"
  by (simp add: validateGoProject_def ex_tree_def ex_fs_def)

lemma ex_linux_key:
  "getCacheKey ex_tree linux_amd64 ex_config
     = ''linux/amd64-e1dfb8155737-eb42387a8f6ec268f6f1ee5489460f33''"
  by (simp add: getCacheKey_def ex_tree_hash ex_config_hash) (simp add: linux_amd64_def)

lemma ex_paths:
  "path_resolve ''/home/dev/app'' ''.mkgo-cache'' = [''home'', ''dev'', ''app'', ''.mkgo-cache'']"
  "path_resolve ''/home/dev/app'' ''dist'' = [''home'', ''dev'', ''app'', ''dist'']"
  "path_resolve ''/home/dev/app'' ''dist/app-1.0.0-linux-amd64-20250101''
     = [''home'', ''dev'', ''app'', ''dist'', ''app-1.0.0-linux-amd64-20250101'']"
  "path_resolve ''/home/dev/app''
       (cacheFile ''linux/amd64-e1dfb8155737-eb42387a8f6ec268f6f1ee5489460f33'')
     = [''home'', ''dev'', ''app'', ''.mkgo-cache'', ''linux'',
        ''amd64-e1dfb8155737-eb42387a8f6ec268f6f1ee5489460f33.bin'']"
  "path_resolve ''/home/dev/app'' (cacheFile ''old-key'')
     = [''home'', ''dev'', ''app'', ''.mkgo-cache'', ''old-key.bin'']"
  "path_join [''dist'', ''checksums.txt''] = ''dist/checksums.txt''"
  "path_resolve ''/home/dev/app'' ''dist/checksums.txt''
     = [''home'', ''dev'', ''app'', ''dist'', ''checksums.txt'']"
  "individualFile (path_join [''dist'', ''checksums'']) ''dist/app-1.0.0-linux-amd64-20250101''
     = ''dist/checksums/app-1.0.0-linux-amd64-20250101.sha256''"
  "path_resolve ''/home/dev/app'' ''dist/checksums/app-1.0.0-linux-amd64-20250101.sha256''
     = [''home'', ''dev'', ''app'', ''dist'', ''checksums'',
        ''app-1.0.0-linux-amd64-20250101.sha256'']"
  "path_basename ''dist/app-1.0.0-linux-amd64-20250101'' = ''app-1.0.0-linux-amd64-20250101''"
  by code_simp+

section \<open>Jobs and batches\<close>

lemma readFile_kept:
  "cwd w' = cwd w \<Longrightarrow> dom (files w) \<subseteq> dom (files w') \<Longrightarrow> readFile w p \<noteq> None \<Longrightarrow>
   readFile w' p \<noteq> None"
  by (auto simp: readFile_def file_at_def)

lemma job_step_effect:
  assumes "job_step src config t (ph, w) (ph', w')"
  shows "\<not> terminal ph"
    and "builtBinaries w' = builtBinaries w @ (if succeeded ph' then [output t] else [])"
    and "failedBuilds w' = failedBuilds w @ (if ph' = BuildFailed then [platform t] else [])"
    and "checksumFiles w' = checksumFiles w"
    and "cwd w' = cwd w \<and> dom (files w) \<subseteq> dom (files w')"
    and "succeeded ph' \<Longrightarrow> readFile w' (output t) \<noteq> None"
    and "ph' \<noteq> Pending"
    and "succeeded ph' \<Longrightarrow> cache_entry w' (getCacheKey src t config) \<noteq> None"
  using assms
  by (cases rule: job_step.cases;
      auto simp: terminal_def succeeded_def push_built_def push_failed_def write_output_def
        restoreFromCache_def saveToCache_def cache_entry_def readFile_def writeFile_def
        file_at_def
        split: option.splits if_splits)+

lemma job_step_cache:
  assumes "job_step src config t (ph, w) (ph', w')"
  shows "files w' q = Some v \<Longrightarrow>
         files w q = Some v \<or> q = file_at w (cacheFile (getCacheKey src t config))
           \<or> q = file_at w (output t)"
  using assms
  by (cases rule: job_step.cases;
      auto simp: cache_entry_def push_built_def push_failed_def write_output_def
        restoreFromCache_def saveToCache_def readFile_def writeFile_def file_at_def
        split: option.splits if_splits)


lemma mset_counted_update:
  assumes "i < length js" and "\<not> P (js ! i)"
  shows "mset (map f (filter P (js[i := x])))
           = mset (map f (filter P js)) + (if P x then {#f x#} else {#})"
proof -
  have "mset (js[i := x]) = add_mset x (mset js - {#js ! i#})"
    using assms(1) by (simp add: mset_update)
  then have "filter_mset P (mset (js[i := x])) = filter_mset P (add_mset x (mset js - {#js ! i#}))"
    by simp
  also have "\<dots> = filter_mset P (mset js) + (if P x then {#x#} else {#})"
    using assms(2) by (simp add: filter_diff_mset)
  finally have counted: "mset (filter P (js[i := x])) = mset (filter P js) + (if P x then {#x#} else {#})"
    by simp
  have "mset (map f (filter P (js[i := x]))) = image_mset f (mset (filter P (js[i := x])))"
    by simp
  also have "\<dots> = image_mset f (mset (filter P js) + (if P x then {#x#} else {#}))"
    by (simp only: counted)
  finally show ?thesis by simp
qed

lemma batch_step_accounts:
  assumes "batch_step src config (js, w) (js', w')"
  shows "map fst js' = map fst js"
    and "\<exists>ys. builtBinaries w' = builtBinaries w @ ys
           \<and> mset (built_outputs js') = mset (built_outputs js) + mset ys"
    and "\<exists>zs. failedBuilds w' = failedBuilds w @ zs
           \<and> mset (failed_platforms js') = mset (failed_platforms js) + mset zs"
    and "checksumFiles w' = checksumFiles w"
    and "cwd w' = cwd w \<and> dom (files w) \<subseteq> dom (files w')"
    and "(\<forall>j \<in> set js. succeeded (snd j) \<longrightarrow> readFile w (output (fst j)) \<noteq> None) \<Longrightarrow>
         (\<forall>j \<in> set js'. succeeded (snd j) \<longrightarrow> readFile w' (output (fst j)) \<noteq> None)"
    and "\<forall>j \<in> set js'. snd j = Pending \<longrightarrow> j \<in> set js"
    and "(\<forall>j \<in> set js. succeeded (snd j) \<longrightarrow>
            cache_entry w (getCacheKey src (fst j) config) \<noteq> None) \<Longrightarrow>
         (\<forall>j \<in> set js'. succeeded (snd j) \<longrightarrow>
            cache_entry w' (getCacheKey src (fst j) config) \<noteq> None)"
proof -
  from assms obtain i t ph ph' where js': "js' = js[i := (t, ph')]" and i: "i < length js"
    and at: "js ! i = (t, ph)" and job: "job_step src config t (ph, w) (ph', w')"
    by (cases rule: batch_step.cases) auto
  note eff = job_step_effect [OF job]
  from at have fst_i: "fst (js ! i) = t" and snd_i: "snd (js ! i) = ph" by simp_all
  from eff(1) snd_i have not_succ: "\<not> succeeded (snd (js ! i))"
    and not_failed: "snd (js ! i) \<noteq> BuildFailed"
    by (auto simp: terminal_def succeeded_def)
  have member: "j = (t, ph') \<or> j \<in> set js" if "j \<in> set js'" for j
    using that js' set_update_subset_insert [of js i "(t, ph')"] by auto
  from js' fst_i show "map fst js' = map fst js"
    by (simp add: map_update) (metis list_update_id map_update)
  have "mset (built_outputs js') = mset (built_outputs js)
          + (if succeeded ph' then {#output t#} else {#})"
    unfolding built_outputs_def js'
    using mset_counted_update [OF i, of "\<lambda>j. succeeded (snd j)" "\<lambda>j. output (fst j)" "(t, ph')"]
      not_succ by simp
  with eff(2) show "\<exists>ys. builtBinaries w' = builtBinaries w @ ys
      \<and> mset (built_outputs js') = mset (built_outputs js) + mset ys"
    by auto
  have "mset (failed_platforms js') = mset (failed_platforms js)
          + (if ph' = BuildFailed then {#platform t#} else {#})"
    unfolding failed_platforms_def js'
    using mset_counted_update [OF i, of "\<lambda>j. snd j = BuildFailed" "\<lambda>j. platform (fst j)" "(t, ph')"]
      not_failed by simp
  with eff(3) show "\<exists>zs. failedBuilds w' = failedBuilds w @ zs
      \<and> mset (failed_platforms js') = mset (failed_platforms js) + mset zs"
    by auto
  from eff(4) show "checksumFiles w' = checksumFiles w" .
  from eff(5) show "cwd w' = cwd w \<and> dom (files w) \<subseteq> dom (files w')" .
  from eff(5) have kept: "readFile w' p \<noteq> None" if "readFile w p \<noteq> None" for p
    using that readFile_kept [of w' w p] by simp
  show "\<forall>j \<in> set js'. succeeded (snd j) \<longrightarrow> readFile w' (output (fst j)) \<noteq> None"
    if "\<forall>j \<in> set js. succeeded (snd j) \<longrightarrow> readFile w (output (fst j)) \<noteq> None"
    using that member eff(6) kept by fastforce
  show "\<forall>j \<in> set js'. snd j = Pending \<longrightarrow> j \<in> set js"
    using member eff(7) by fastforce
  show "\<forall>j \<in> set js'. succeeded (snd j) \<longrightarrow>
          cache_entry w' (getCacheKey src (fst j) config) \<noteq> None"
    if "\<forall>j \<in> set js. succeeded (snd j) \<longrightarrow>
          cache_entry w (getCacheKey src (fst j) config) \<noteq> None"
    using that member eff(8) kept by (fastforce simp: cache_entry_def)
qed

lemma batch_run_accounts:
  assumes "(batch_step src config)\<^sup>*\<^sup>* (js0, w0) (js, w)"
  shows "map fst js = map fst js0
    \<and> (\<exists>ys. builtBinaries w = builtBinaries w0 @ ys
           \<and> mset (built_outputs js) = mset (built_outputs js0) + mset ys)
    \<and> (\<exists>zs. failedBuilds w = failedBuilds w0 @ zs
           \<and> mset (failed_platforms js) = mset (failed_platforms js0) + mset zs)
    \<and> checksumFiles w = checksumFiles w0
    \<and> (cwd w = cwd w0 \<and> dom (files w0) \<subseteq> dom (files w))
    \<and> ((\<forall>j \<in> set js0. succeeded (snd j) \<longrightarrow> readFile w0 (output (fst j)) \<noteq> None) \<longrightarrow>
        (\<forall>j \<in> set js. succeeded (snd j) \<longrightarrow> readFile w (output (fst j)) \<noteq> None))
    \<and> ((\<forall>j \<in> set js0. succeeded (snd j) \<longrightarrow>
           cache_entry w0 (getCacheKey src (fst j) config) \<noteq> None) \<longrightarrow>
        (\<forall>j \<in> set js. succeeded (snd j) \<longrightarrow>
           cache_entry w (getCacheKey src (fst j) config) \<noteq> None))"
  using assms
proof (induction rule: rtranclp_induct2)
  case refl
  show ?case by simp
next
  case (step js1 w1 js2 w2)
  note one = batch_step_accounts [OF step.hyps(2)]
  from step.IH obtain ys where ys: "builtBinaries w1 = builtBinaries w0 @ ys"
      "mset (built_outputs js1) = mset (built_outputs js0) + mset ys" by blast
  from one(2) obtain ys' where ys': "builtBinaries w2 = builtBinaries w1 @ ys'"
      "mset (built_outputs js2) = mset (built_outputs js1) + mset ys'" by blast
  from step.IH obtain zs where zs: "failedBuilds w1 = failedBuilds w0 @ zs"
      "mset (failed_platforms js1) = mset (failed_platforms js0) + mset zs" by blast
  from one(3) obtain zs' where zs': "failedBuilds w2 = failedBuilds w1 @ zs'"
      "mset (failed_platforms js2) = mset (failed_platforms js1) + mset zs'" by blast
  have "builtBinaries w2 = builtBinaries w0 @ (ys @ ys')
      \<and> mset (built_outputs js2) = mset (built_outputs js0) + mset (ys @ ys')"
    using ys ys' by simp
  moreover have "failedBuilds w2 = failedBuilds w0 @ (zs @ zs')
      \<and> mset (failed_platforms js2) = mset (failed_platforms js0) + mset (zs @ zs')"
    using zs zs' by simp
  moreover have "map fst js2 = map fst js0" using step.IH one(1) by simp
  moreover have "checksumFiles w2 = checksumFiles w0" using step.IH one(4) by simp
  moreover have "cwd w2 = cwd w0 \<and> dom (files w0) \<subseteq> dom (files w2)"
  proof -
    from step.IH have "cwd w1 = cwd w0" and "dom (files w0) \<subseteq> dom (files w1)" by blast+
    with one(5) show ?thesis by auto
  qed
  moreover have "\<forall>j \<in> set js2. succeeded (snd j) \<longrightarrow> readFile w2 (output (fst j)) \<noteq> None"
    if "\<forall>j \<in> set js0. succeeded (snd j) \<longrightarrow> readFile w0 (output (fst j)) \<noteq> None"
    using that step.IH one(6) by blast
  moreover have "\<forall>j \<in> set js2. succeeded (snd j) \<longrightarrow>
        cache_entry w2 (getCacheKey src (fst j) config) \<noteq> None"
    if "\<forall>j \<in> set js0. succeeded (snd j) \<longrightarrow>
        cache_entry w0 (getCacheKey src (fst j) config) \<noteq> None"
    using that step.IH one(8) by blast
  ultimately show ?case by blast
qed

lemma start_batch_accounts [simp]:
  "built_outputs (start_batch b) = []" "failed_platforms (start_batch b) = []"
  "map fst (start_batch b) = b" "length (start_batch b) = length b"
  by (simp_all add: built_outputs_def failed_platforms_def start_batch_def succeeded_def comp_def)




lemma batch_stepI:
  assumes "i < length js" and "js ! i = (t, ph)" and "job_step src config t (ph, w) (ph', w')"
    and "js' = js[i := (t, ph')]"
  shows "batch_step src config (js, w) (js', w')"
  using assms by (auto intro: batch_step.step)

lemma batch_steps_one:
  "batch_step src config a b \<Longrightarrow> (batch_step src config)\<^sup>*\<^sup>* a b"
  by (rule r_into_rtranclp)

lemma batch_steps_more:
  "(batch_step src config)\<^sup>*\<^sup>* a b \<Longrightarrow> batch_step src config b c \<Longrightarrow>
   (batch_step src config)\<^sup>*\<^sup>* a c"
  by (rule rtranclp.rtrancl_into_rtrancl)

lemma fresh_lookup:
  "restoreFromCache k p fresh = (False, fresh)"
  by (simp add: restoreFromCache_def cache_entry_def readFile_def fresh_def)

lemma ex_both_building:
  "(batch_step ex_tree ex_config)\<^sup>*\<^sup>* (start_batch [linux_amd64, darwin_arm64], fresh)
     ([(linux_amd64, Building), (darwin_arm64, Building)], fresh)"
proof -
  have first: "batch_step ex_tree ex_config (start_batch [linux_amd64, darwin_arm64], fresh)
          ([(linux_amd64, Building), (darwin_arm64, Pending)], fresh)"
    by (rule batch_stepI [where i = 0 and t = linux_amd64 and ph = Pending])
       (simp_all add: start_batch_def job_step.cache_miss fresh_lookup)
  have second: "batch_step ex_tree ex_config
          ([(linux_amd64, Building), (darwin_arm64, Pending)], fresh)
          ([(linux_amd64, Building), (darwin_arm64, Building)], fresh)"
    by (rule batch_stepI [where i = 1 and t = darwin_arm64 and ph = Pending])
       (simp_all add: job_step.cache_miss fresh_lookup)
  from batch_steps_one [OF first] second show ?thesis
    by (rule batch_steps_more)
qed

lemma ex_batch_run:
  "allSettled ex_tree ex_config [linux_amd64, darwin_arm64] fresh
     [(linux_amd64, CachePersisted), (darwin_arm64, BuildFailed)] after_one_failure"
proof -
  have third: "batch_step ex_tree ex_config
          ([(linux_amd64, Building), (darwin_arm64, Building)], fresh)
          ([(linux_amd64, Building), (darwin_arm64, BuildFailed)],
           push_failed (platform darwin_arm64) fresh)"
    by (rule batch_stepI [where i = 1 and t = darwin_arm64 and ph = Building])
       (simp_all add: job_step.toolchain_failed)
  have "saveToCache (getCacheKey ex_tree linux_amd64 ex_config) (output linux_amd64)
          (write_output linux_amd64 ''ELF'' (push_failed (platform darwin_arm64) fresh))
        = Some (after_one_failure\<lparr>builtBinaries := []\<rparr>)"
    by (simp add: saveToCache_def write_output_def push_failed_def fresh_def after_one_failure_def
          readFile_def writeFile_def file_at_def ex_linux_key ex_paths)
       (simp add: linux_amd64_def darwin_arm64_def ex_paths)
  from job_step.built [OF this]
  have "job_step ex_tree ex_config linux_amd64
          (Building, push_failed (platform darwin_arm64) fresh) (CachePersisted, after_one_failure)"
    by (simp add: push_built_def after_one_failure_def linux_amd64_def)
  then have fourth: "batch_step ex_tree ex_config
          ([(linux_amd64, Building), (darwin_arm64, BuildFailed)],
           push_failed (platform darwin_arm64) fresh)
          ([(linux_amd64, CachePersisted), (darwin_arm64, BuildFailed)], after_one_failure)"
    by (rule batch_stepI [where i = 0 and t = linux_amd64 and ph = Building, rotated 2]) simp_all
  from ex_both_building third
  have "(batch_step ex_tree ex_config)\<^sup>*\<^sup>* (start_batch [linux_amd64, darwin_arm64], fresh)
      ([(linux_amd64, Building), (darwin_arm64, BuildFailed)],
       push_failed (platform darwin_arm64) fresh)"
    by (rule batch_steps_more)
  from this fourth
  have "(batch_step ex_tree ex_config)\<^sup>*\<^sup>* (start_batch [linux_amd64, darwin_arm64], fresh)
      ([(linux_amd64, CachePersisted), (darwin_arm64, BuildFailed)], after_one_failure)"
    by (rule batch_steps_more)
  then show ?thesis
    by (simp add: allSettled_def settled_def terminal_def)
qed

lemma ex_batches_run:
  "run_batches ex_tree ex_config [[linux_amd64, darwin_arm64]] fresh
     ([[(linux_amd64, CachePersisted), (darwin_arm64, BuildFailed)]], after_one_failure)"
  by (rule run_batches.batches_next [OF ex_batch_run run_batches.batches_done])


section \<open>Batching\<close>

lemma consecutive_batches_step:
  "n \<noteq> 0 \<Longrightarrow> xs \<noteq> [] \<Longrightarrow>
   consecutive_batches n xs = take n xs # consecutive_batches n (drop n xs)"
  by (subst consecutive_batches.simps) simp

lemma consecutive_batches_none:
  "n = 0 \<or> xs = [] \<Longrightarrow> consecutive_batches n xs = []"
  by (subst consecutive_batches.simps) simp

lemma consecutive_batches_concat:
  "0 < n \<Longrightarrow> concat (consecutive_batches n xs) = xs"
proof (induction n xs rule: consecutive_batches.induct)
  case (1 n xs)
  show ?case
  proof (cases "xs = []")
    case True
    then show ?thesis by (simp add: consecutive_batches_none)
  next
    case False
    with 1 show ?thesis by (simp add: consecutive_batches_step)
  qed
qed

lemma consecutive_batches_sizes:
  "b \<in> set (consecutive_batches n xs) \<Longrightarrow> b \<noteq> [] \<and> length b \<le> n"
proof (induction n xs rule: consecutive_batches.induct)
  case (1 n xs)
  show ?case
  proof (cases "n = 0 \<or> xs = []")
    case True
    with "1.prems" show ?thesis by (simp add: consecutive_batches_none)
  next
    case False
    with "1.prems" have "b = take n xs \<or> b \<in> set (consecutive_batches n (drop n xs))"
      by (simp add: consecutive_batches_step)
    with "1.IH" False show ?thesis by auto
  qed
qed

lemma consecutive_batches_full:
  "Suc j < length (consecutive_batches n xs) \<Longrightarrow> length (consecutive_batches n xs ! j) = n"
proof (induction n xs arbitrary: j rule: consecutive_batches.induct)
  case (1 n xs)
  show ?case
  proof (cases "n = 0 \<or> xs = []")
    case True
    with "1.prems" show ?thesis by (simp add: consecutive_batches_none)
  next
    case False
    then have unfold: "consecutive_batches n xs = take n xs # consecutive_batches n (drop n xs)"
      by (simp add: consecutive_batches_step)
    show ?thesis
    proof (cases j)
      case 0
      with "1.prems" unfold have "consecutive_batches n (drop n xs) \<noteq> []" by auto
      then have "drop n xs \<noteq> []" using consecutive_batches_none [of n "drop n xs"] by blast
      then have "n \<le> length xs" by simp
      with 0 unfold show ?thesis by simp
    next
      case (Suc j')
      with "1.prems" unfold have "Suc j' < length (consecutive_batches n (drop n xs))" by simp
      with "1.IH" False have "length (consecutive_batches n (drop n xs) ! j') = n" by simp
      with Suc unfold show ?thesis by simp
    qed
  qed
qed

lemma js_slice_window:
  assumes "0 \<le> i" and "1 \<le> k"
  shows "js_slice ts (Num i) (Num (i + k)) = take (nat k) (drop (nat i) ts)"
proof -
  have "slice_index (length ts) (Num i) = min (nat i) (length ts)"
    using assms by (simp add: slice_index_def)
  moreover have "slice_index (length ts) (Num (i + k)) = min (nat (i + k)) (length ts)"
    using assms by (simp add: slice_index_def)
  ultimately show ?thesis
    using assms by (auto simp: js_slice_def Let_def min_def nat_add_distrib)
qed

lemma batch_loop_positive:
  assumes "1 \<le> k" and "0 \<le> i"
  shows "batch_loop ts (Num k) (Num i) acc
           = Some (acc @ consecutive_batches (nat k) (drop (nat i) ts))"
  using assms(2)
proof (induction "length ts - nat i" arbitrary: i acc rule: less_induct)
  case less
  show ?case
  proof (cases "i < int (length ts)")
    case False
    with less.prems have "drop (nat i) ts = []" by simp
    with False show ?thesis
      by (subst batch_loop.simps) (simp add: js_less_def consecutive_batches_none)
  next
    case True
    with less.prems \<open>1 \<le> k\<close> have smaller: "length ts - nat (i + k) < length ts - nat i" by linarith
    from less.prems \<open>1 \<le> k\<close> have next_ok: "0 \<le> i + k" by simp
    from True less.prems have nonempty: "drop (nat i) ts \<noteq> []" by simp
    from \<open>1 \<le> k\<close> have k: "nat k \<noteq> 0" by simp
    have "batch_loop ts (Num k) (Num i) acc
            = batch_loop ts (Num k) (Num (i + k)) (acc @ [js_slice ts (Num i) (Num (i + k))])"
      using True by (subst batch_loop.simps) (simp add: js_less_def js_add_def)
    also have "\<dots> = Some ((acc @ [js_slice ts (Num i) (Num (i + k))])
                          @ consecutive_batches (nat k) (drop (nat (i + k)) ts))"
      by (rule less.hyps [OF smaller next_ok])
    also have "js_slice ts (Num i) (Num (i + k)) = take (nat k) (drop (nat i) ts)"
      using less.prems \<open>1 \<le> k\<close> by (rule js_slice_window)
    also have "drop (nat (i + k)) ts = drop (nat k) (drop (nat i) ts)"
      using less.prems \<open>1 \<le> k\<close> by (simp add: nat_add_distrib add.commute)
    finally show ?thesis
      by (simp add: consecutive_batches_step [OF k nonempty])
  qed
qed

lemma make_batches_positive:
  assumes "parallelLimit config cpus = Num k" and "1 \<le> k"
  shows "make_batches config cpus = Some (consecutive_batches (nat k) (targets config))"
  using batch_loop_positive [OF assms(2), of 0 "targets config" "[]"] assms(1)
  by (simp add: make_batches_def)

lemma batch_loop_zero_limit:
  assumes "batch_loop ts limit i acc = Some bs"
  shows "limit = Num 0 \<longrightarrow> \<not> js_less i (Num (int (length ts)))"
proof (rule batch_loop.raw_induct
    [where P = "\<lambda>ts limit i acc bs. limit = Num 0 \<longrightarrow> \<not> js_less i (Num (int (length ts)))",
     OF _ assms])
  fix loop :: "BuildTarget list \<Rightarrow> number \<Rightarrow> number \<Rightarrow> BuildTarget list list \<Rightarrow> BuildTarget list list option"
  fix ts limit i acc bs
  assume IH: "\<And>ts limit i acc bs. loop ts limit i acc = Some bs \<Longrightarrow>
      limit = Num 0 \<longrightarrow> \<not> js_less i (Num (int (length ts)))"
    and unfolded: "(if js_less i (Num (int (length ts)))
        then loop ts limit (js_add i limit) (acc @ [js_slice ts i (js_add i limit)])
        else Some acc) = Some bs"
  show "limit = Num 0 \<longrightarrow> \<not> js_less i (Num (int (length ts)))"
  proof (intro impI notI)
    assume zero: "limit = Num 0" and less: "js_less i (Num (int (length ts)))"
    from less obtain a where a: "i = Num a" by (cases i) (simp_all add: js_less_def)
    from less unfolded
    have "loop ts limit (js_add i limit) (acc @ [js_slice ts i (js_add i limit)]) = Some bs"
      by simp
    from IH [OF this] zero have "\<not> js_less (js_add i limit) (Num (int (length ts)))" by simp
    with zero a less show False by (simp add: js_add_def)
  qed
qed

lemma make_batches_zero_limit:
  assumes "parallelLimit config cpus = Num 0" and "targets config \<noteq> []"
  shows "make_batches config cpus = None"
proof (cases "make_batches config cpus")
  case None
  then show ?thesis .
next
  case (Some bs)
  then have "\<not> js_less (Num 0) (Num (int (length (targets config))))"
    using batch_loop_zero_limit [of "targets config" "Num 0" "Num 0" "[]" bs] assms(1)
    by (simp add: make_batches_def)
  with assms(2) show ?thesis by (simp add: js_less_def)
qed

lemma make_batches_NaN_limit:
  assumes "parallelLimit config cpus = NaN" and "targets config \<noteq> []"
  shows "make_batches config cpus = Some [[]]"
proof -
  have "batch_loop (targets config) NaN (Num 0) [] = batch_loop (targets config) NaN NaN [[]]"
    using assms(2)
    by (subst batch_loop.simps) (simp add: js_less_def js_add_def js_slice_def slice_index_def)
  also have "\<dots> = Some [[]]"
    by (subst batch_loop.simps) (simp add: js_less_def)
  finally show ?thesis using assms(1) by (simp add: make_batches_def)
qed

lemma batch_run_length:
  "(batch_step src config)\<^sup>*\<^sup>* (js0, w0) (js, w) \<Longrightarrow> length js = length js0"
  using batch_run_accounts [of src config js0 w0 js w] by (metis length_map)

lemma instant_batch:
  "instant src config bs w (js, w') \<Longrightarrow> \<exists>b \<in> set bs. length js = length b"
proof (induction bs w "(js, w')" rule: instant.induct)
  case (current b w bs)
  then show ?case using batch_run_length [of src config "start_batch b" w js w'] by simp
next
  case (afterwards b w js1 w1 bs)
  then show ?case by auto
qed

lemma in_flight_le: "in_flight js \<le> length js"
  by (simp add: in_flight_def)

text \<open>
  \<^verbatim>\<open>Promise.allSettled\<close> is always fulfilled: a job that has not ended can take a
  step, and every step uses up one of the steps that are left. So every batch, and with
  it every list of batches, runs to its end.
\<close>

lemma job_can_step:
  assumes "\<not> terminal ph"
  shows "\<exists>ph' w'. job_step src config t (ph, w) (ph', w')"
proof (cases ph)
  case Pending
  show ?thesis
  proof (cases "cache_entry w (getCacheKey src t config)")
    case None
    then have "job_step src config t (Pending, w) (Building, w)"
      by (intro job_step.cache_miss) (simp add: restoreFromCache_def)
    with Pending show ?thesis by blast
  next
    case (Some blob)
    then have "job_step src config t (Pending, w) (Building, w)"
      by (rule job_step.cache_error)
    with Pending show ?thesis by blast
  qed
next
  case Building
  then show ?thesis using job_step.toolchain_failed by blast
qed (use assms in \<open>simp_all add: terminal_def\<close>)

lemma batch_progress:
  assumes "\<not> settled js"
  shows "\<exists>js' w'. batch_step src config (js, w) (js', w')"
proof -
  from assms obtain i where i: "i < length js" and open_job: "\<not> terminal (snd (js ! i))"
    by (auto simp: settled_def list_all_length)
  obtain t ph where at: "js ! i = (t, ph)" by (cases "js ! i")
  with open_job obtain ph' w' where "job_step src config t (ph, w) (ph', w')"
    using job_can_step [of ph src config t w] by auto
  with i at show ?thesis by (blast intro: batch_step.step)
qed

lemma job_step_rank:
  assumes "job_step src config t (ph, w) (ph', w')"
  shows "(case ph' of Pending \<Rightarrow> 2 | Building \<Rightarrow> 1 | _ \<Rightarrow> 0)
           < (case ph of Pending \<Rightarrow> 2 | Building \<Rightarrow> (1::nat) | _ \<Rightarrow> 0)"
  using assms by (cases rule: job_step.cases) simp_all

lemma batch_step_rounds_left:
  assumes "batch_step src config (js, w) (js', w')"
  shows "rounds_left js' < rounds_left js"
proof -
  let ?rank = "\<lambda>j :: job. case snd j of Pending \<Rightarrow> 2 | Building \<Rightarrow> (1::nat) | _ \<Rightarrow> 0"
  from assms obtain i t ph ph' where js': "js' = js[i := (t, ph')]" and i: "i < length js"
    and at: "js ! i = (t, ph)" and job: "job_step src config t (ph, w) (ph', w')"
    by (cases rule: batch_step.cases) auto
  have "sum_list (map ?rank js') = sum_list ((map ?rank js)[i := ?rank (t, ph')])"
    by (simp add: js' map_update)
  also have "\<dots> = sum_list (map ?rank js) + ?rank (t, ph') - map ?rank js ! i"
    using i by (simp add: sum_list_update)
  also have "map ?rank js ! i = ?rank (t, ph)" using i at by simp
  finally have "rounds_left js' = rounds_left js + ?rank (t, ph') - ?rank (t, ph)"
    by (simp add: rounds_left_def)
  moreover have "?rank (t, ph) \<le> rounds_left js"
  proof -
    from i at have "(t, ph) \<in> set js" by (metis nth_mem)
    then have "?rank (t, ph) \<in> set (map ?rank js)" by force
    then show ?thesis unfolding rounds_left_def by (simp add: member_le_sum_list)
  qed
  moreover have "?rank (t, ph') < ?rank (t, ph)" using job_step_rank [OF job] by simp
  ultimately show ?thesis by linarith
qed

lemma batch_settles:
  "\<exists>js' w'. (batch_step src config)\<^sup>*\<^sup>* (js, w) (js', w') \<and> settled js'"
proof (induction "rounds_left js" arbitrary: js w rule: less_induct)
  case less
  show ?case
  proof (cases "settled js")
    case True
    then show ?thesis by blast
  next
    case False
    from batch_progress [OF this] obtain js1 w1 where one: "batch_step src config (js, w) (js1, w1)"
      by blast
    from less [OF batch_step_rounds_left [OF one]] obtain js' w'
      where "(batch_step src config)\<^sup>*\<^sup>* (js1, w1) (js', w')" "settled js'" by blast
    with converse_rtranclp_into_rtranclp [of "batch_step src config", OF one]
    show ?thesis by blast
  qed
qed

lemma allSettled_exists: "\<exists>js w'. allSettled src config b w js w'"
  using batch_settles [of src config "start_batch b" w] by (simp add: allSettled_def)

lemma run_batches_exists: "\<exists>jss w'. run_batches src config bs w (jss, w')"
proof (induction bs arbitrary: w)
  case Nil
  show ?case by (blast intro: run_batches.batches_done)
next
  case (Cons b bs)
  from allSettled_exists obtain js w1 where "allSettled src config b w js w1" by blast
  moreover from Cons obtain jss w2 where "run_batches src config bs w1 (jss, w2)" by blast
  ultimately show ?case by (blast intro: run_batches.batches_next)
qed

lemma build_returns:
  assumes "parallelLimit config cpus = Num k" and "1 \<le> k"
  shows "\<exists>r jss w'. build src cpus config w (r, jss, w')"
proof (cases "validateGoProject src")
  case False
  then show ?thesis by (blast intro: build.not_a_go_project)
next
  case True
  let ?w1 = "if clean config then cleanCache (cleanBuildDir (outputDir config) w) else w"
  from make_batches_positive [OF assms] obtain bs where bs: "make_batches config cpus = Some bs"
    by blast
  obtain jss w2 where run: "run_batches src config bs ?w1 (jss, w2)"
    using run_batches_exists by blast
  show ?thesis
  proof (cases "checksum config \<and> length (builtBinaries w2) > 0")
    case False
    then have "(if checksum config \<and> length (builtBinaries w2) > 0
                then generateChecksums (\<lambda>content. []) config w2 else Some w2) = Some w2"
      by auto
    from build.finished [OF True refl bs run this] show ?thesis by blast
  next
    case sums: True
    show ?thesis
    proof (cases "generateChecksums (\<lambda>content. []) config w2")
      case None
      from build.checksums_failed [OF True refl bs run sums None] show ?thesis by blast
    next
      case (Some w3)
      with sums have "(if checksum config \<and> length (builtBinaries w2) > 0
                then generateChecksums (\<lambda>content. []) config w2 else Some w2) = Some w3"
        by simp
      from build.finished [OF True refl bs run this] show ?thesis by blast
    qed
  qed
qed

text \<open>
  C6, as the code has it. When \<^verbatim>\<open>Math.min(config.parallel, os.cpus().length)\<close> is an
  integer \<open>k\<close> of at least 1, the loop ends with the targets cut into consecutive
  batches of \<open>k\<close>, the last one possibly shorter and none empty; the batches run one
  after the other, to the end of the last one, and at every instant at most \<open>k\<close>
  toolchain processes are running.
\<close>

theorem batches_bound_the_toolchain_processes:
  assumes "parallelLimit config cpus = Num k" and "1 \<le> k"
  shows "make_batches config cpus = Some (consecutive_batches (nat k) (targets config))
    \<and> concat (consecutive_batches (nat k) (targets config)) = targets config
    \<and> (\<forall>b \<in> set (consecutive_batches (nat k) (targets config)). b \<noteq> [] \<and> int (length b) \<le> k)
    \<and> (\<forall>j. Suc j < length (consecutive_batches (nat k) (targets config)) \<longrightarrow>
           int (length (consecutive_batches (nat k) (targets config) ! j)) = k)
    \<and> (\<forall>w. \<exists>jss w'. run_batches src config (consecutive_batches (nat k) (targets config)) w (jss, w'))
    \<and> (\<forall>w js w'. instant src config (consecutive_batches (nat k) (targets config)) w (js, w') \<longrightarrow>
           int (in_flight js) \<le> k)"
proof -
  let ?bs = "consecutive_batches (nat k) (targets config)"
  from assms(2) have k: "0 < nat k" by simp
  have sizes: "b \<noteq> [] \<and> int (length b) \<le> k" if "b \<in> set ?bs" for b
    using consecutive_batches_sizes [OF that] assms(2) by linarith
  have full: "int (length (?bs ! j)) = k" if "Suc j < length ?bs" for j
    using consecutive_batches_full [OF that] assms(2) by linarith
  have bound: "int (in_flight js) \<le> k" if "instant src config ?bs w (js, w')" for w js w'
  proof -
    from instant_batch [OF that] obtain b where "b \<in> set ?bs" "length js = length b" by blast
    with sizes [of b] in_flight_le [of js] show ?thesis by simp
  qed
  have runs: "\<exists>jss w'. run_batches src config ?bs w (jss, w')" for w
    by (rule run_batches_exists)
  from make_batches_positive [OF assms] consecutive_batches_concat [OF k] sizes full runs bound
  show ?thesis by blast
qed

lemma ex_config_batches:
  "consecutive_batches 2 [linux_amd64, darwin_arm64] = [[linux_amd64, darwin_arm64]]"
  by (simp add: consecutive_batches_step consecutive_batches_none)

theorem batches_bound_the_toolchain_processes_witness:
  "make_batches ex_config 4 = Some [[linux_amd64, darwin_arm64]]
   \<and> int (in_flight [(linux_amd64, Building), (darwin_arm64, Building)]) \<le> 2"
proof -
  have limit: "parallelLimit ex_config 4 = Num 2"
    by (simp add: parallelLimit_def ex_config_def js_min_def)
  have batches: "consecutive_batches (nat 2) (targets ex_config) = [[linux_amd64, darwin_arm64]]"
    using ex_config_batches by (simp add: ex_config_def)
  have running: "instant ex_tree ex_config [[linux_amd64, darwin_arm64]] fresh
          ([(linux_amd64, Building), (darwin_arm64, Building)], fresh)"
    using ex_both_building by (rule instant.current)
  from batches_bound_the_toolchain_processes [OF limit, of ex_tree]
  have "make_batches ex_config 4 = Some [[linux_amd64, darwin_arm64]]"
    and "\<forall>w js w'. instant ex_tree ex_config [[linux_amd64, darwin_arm64]] w (js, w') \<longrightarrow>
           int (in_flight js) \<le> 2"
    unfolding batches by simp_all
  with running show ?thesis by blast
qed

text \<open>
  C6, as the specification states it, fails where the limit is not at least 1. With
  \<^verbatim>\<open>--parallel 0\<close> the loop that cuts the batches never ends; with a \<^verbatim>\<open>--parallel\<close>
  that is no number the limit is \<^verbatim>\<open>NaN\<close> and the targets end up in no batch at all.
\<close>

theorem parallel_zero_counterexample:
  "parseInt ''0'' = Num 0
   \<and> make_batches (ex_config\<lparr>parallel := Num 0\<rparr>) 4 = None
   \<and> parseInt ''many'' = NaN
   \<and> make_batches (ex_config\<lparr>parallel := NaN\<rparr>) 4 = Some [[]]
   \<and> targets ex_config = [linux_amd64, darwin_arm64]"
proof -
  have "parseInt ''0'' = Num 0" "parseInt ''many'' = NaN" by code_simp+
  moreover have "make_batches (ex_config\<lparr>parallel := Num 0\<rparr>) 4 = None"
    by (rule make_batches_zero_limit) (simp_all add: parallelLimit_def js_min_def ex_config_def)
  moreover have "make_batches (ex_config\<lparr>parallel := NaN\<rparr>) 4 = Some [[]]"
    by (rule make_batches_NaN_limit) (simp_all add: parallelLimit_def js_min_def ex_config_def)
  ultimately show ?thesis by (simp add: ex_config_def)
qed

section \<open>The files of a build\<close>

lemma set_js_slice: "set (js_slice xs a b) \<subseteq> set xs"
  by (auto simp: js_slice_def Let_def dest: in_set_takeD in_set_dropD)

lemma batch_loop_targets:
  assumes "batch_loop ts limit i acc = Some bs"
  shows "set (concat bs) \<subseteq> set (concat acc) \<union> set ts"
proof (rule batch_loop.raw_induct
    [where P = "\<lambda>ts limit i acc bs. set (concat bs) \<subseteq> set (concat acc) \<union> set ts", OF _ assms])
  fix loop :: "BuildTarget list \<Rightarrow> number \<Rightarrow> number \<Rightarrow> BuildTarget list list \<Rightarrow> BuildTarget list list option"
  fix ts limit i acc bs
  assume IH: "\<And>ts limit i acc bs. loop ts limit i acc = Some bs \<Longrightarrow>
      set (concat bs) \<subseteq> set (concat acc) \<union> set ts"
    and unfolded: "(if js_less i (Num (int (length ts)))
        then loop ts limit (js_add i limit) (acc @ [js_slice ts i (js_add i limit)])
        else Some acc) = Some bs"
  show "set (concat bs) \<subseteq> set (concat acc) \<union> set ts"
  proof (cases "js_less i (Num (int (length ts)))")
    case True
    with unfolded
    have "loop ts limit (js_add i limit) (acc @ [js_slice ts i (js_add i limit)]) = Some bs"
      by simp
    from IH [OF this] set_js_slice [of ts i "js_add i limit"] show ?thesis by auto
  next
    case False
    with unfolded show ?thesis by auto
  qed
qed

lemma make_batches_targets:
  "make_batches config cpus = Some bs \<Longrightarrow> set (concat bs) \<subseteq> set (targets config)"
  using batch_loop_targets [of "targets config" "parallelLimit config cpus" "Num 0" "[]" bs]
  by (simp add: make_batches_def)

lemma failed_platforms_append:
  "failed_platforms (js @ js') = failed_platforms js @ failed_platforms js'"
  by (simp add: failed_platforms_def)

lemma built_outputs_append:
  "built_outputs (js @ js') = built_outputs js @ built_outputs js'"
  by (simp add: built_outputs_def)

lemma batch_step_files:
  assumes "batch_step src config (js, w) (js', w')" and "files w' q = Some v"
  shows "files w q = Some v
    \<or> (\<exists>t \<in> set (map fst js). q = file_at w (cacheFile (getCacheKey src t config))
                                   \<or> q = file_at w (output t))"
proof -
  from assms(1) obtain i t ph ph' where i: "i < length js" and at: "js ! i = (t, ph)"
    and job: "job_step src config t (ph, w) (ph', w')"
    by (cases rule: batch_step.cases) auto
  from i at have "t \<in> set (map fst js)"
    by (metis fst_conv length_map nth_map nth_mem)
  with job_step_cache [OF job assms(2)] show ?thesis by blast
qed

lemma batch_run_files:
  assumes "(batch_step src config)\<^sup>*\<^sup>* (js0, w0) (js, w)"
  shows "\<forall>v. files w q = Some v \<longrightarrow>
          files w0 q = Some v
          \<or> (\<exists>t \<in> set (map fst js0). q = file_at w0 (cacheFile (getCacheKey src t config))
                                         \<or> q = file_at w0 (output t))"
  using assms
proof (induction rule: rtranclp_induct2)
  case refl
  show ?case by simp
next
  case (step js1 w1 js2 w2)
  from step.hyps(1) have same: "map fst js1 = map fst js0" and "cwd w1 = cwd w0"
    using batch_run_accounts [of src config js0 w0 js1 w1] by simp_all
  then have at: "file_at w1 p = file_at w0 p" for p by (simp add: file_at_def)
  show ?case
  proof (intro allI impI)
    fix v assume "files w2 q = Some v"
    from batch_step_files [OF step.hyps(2) this]
    show "files w0 q = Some v
      \<or> (\<exists>t \<in> set (map fst js0). q = file_at w0 (cacheFile (getCacheKey src t config))
                                     \<or> q = file_at w0 (output t))"
      using step.IH same at by auto
  qed
qed

text \<open>
  What the batches of a build leave: the working directory is the same and no file is
  gone, a file that was not there is the cache file or the output of one of the targets,
  \<^verbatim>\<open>failedBuilds\<close> and \<^verbatim>\<open>builtBinaries\<close> have grown by what the jobs have to show, and
  every job that ended with a binary has its entry in the cache.
\<close>

lemma run_batches_invariant:
  assumes "run_batches src config bs w x"
  shows "(cwd (snd x) = cwd w \<and> dom (files w) \<subseteq> dom (files (snd x)))
    \<and> (\<exists>zs. failedBuilds (snd x) = failedBuilds w @ zs
           \<and> mset zs = mset (failed_platforms (concat (fst x))))
    \<and> (\<exists>ys. builtBinaries (snd x) = builtBinaries w @ ys
           \<and> mset ys = mset (built_outputs (concat (fst x))))
    \<and> checksumFiles (snd x) = checksumFiles w
    \<and> (\<forall>q v. files (snd x) q = Some v \<longrightarrow>
          files w q = Some v
          \<or> (\<exists>t \<in> set (concat bs). q = file_at w (cacheFile (getCacheKey src t config))
                                      \<or> q = file_at w (output t)))
    \<and> (\<forall>js \<in> set (fst x). \<forall>j \<in> set js. succeeded (snd j) \<longrightarrow>
          cache_entry (snd x) (getCacheKey src (fst j) config) \<noteq> None)"
  using assms
proof (induction rule: run_batches.induct)
  case (batches_done w)
  show ?case by (simp add: failed_platforms_def built_outputs_def)
next
  case (batches_next b w js w1 bs jss w2)
  from batches_next.hyps(1) have run: "(batch_step src config)\<^sup>*\<^sup>* (start_batch b, w) (js, w1)"
    by (simp add: allSettled_def)
  note acc = batch_run_accounts [OF run]
  note IH = batches_next.IH [unfolded fst_conv snd_conv]
  from acc have cwd1: "cwd w1 = cwd w" and dom1: "dom (files w) \<subseteq> dom (files w1)" by simp_all
  from IH have cwd2: "cwd w2 = cwd w1" and dom2: "dom (files w1) \<subseteq> dom (files w2)" by blast+
  have at: "file_at w1 p = file_at w p" for p using cwd1 by (simp add: file_at_def)
  from acc obtain zs where zs: "failedBuilds w1 = failedBuilds w @ zs"
    "mset (failed_platforms js) = mset zs" by auto
  from IH obtain zs' where zs': "failedBuilds w2 = failedBuilds w1 @ zs'"
    "mset zs' = mset (failed_platforms (concat jss))" by blast
  from acc obtain ys where ys: "builtBinaries w1 = builtBinaries w @ ys"
    "mset (built_outputs js) = mset ys" by auto
  from IH obtain ys' where ys': "builtBinaries w2 = builtBinaries w1 @ ys'"
    "mset ys' = mset (built_outputs (concat jss))" by blast
  have failed: "failedBuilds w2 = failedBuilds w @ (zs @ zs')
      \<and> mset (zs @ zs') = mset (failed_platforms (concat (js # jss)))"
    using zs zs' by (simp add: failed_platforms_append)
  have built: "builtBinaries w2 = builtBinaries w @ (ys @ ys')
      \<and> mset (ys @ ys') = mset (built_outputs (concat (js # jss)))"
    using ys ys' by (simp add: built_outputs_append)
  from IH have "checksumFiles w2 = checksumFiles w1" by blast
  with acc have sums: "checksumFiles w2 = checksumFiles w" by simp
  have new: "files w q = Some v
      \<or> (\<exists>t \<in> set (concat (b # bs)). q = file_at w (cacheFile (getCacheKey src t config))
                                        \<or> q = file_at w (output t))"
    if "files w2 q = Some v" for q v
  proof -
    from IH that have "files w1 q = Some v
        \<or> (\<exists>t \<in> set (concat bs). q = file_at w1 (cacheFile (getCacheKey src t config))
                                    \<or> q = file_at w1 (output t))"
      by blast
    with batch_run_files [OF run, of q] show ?thesis by (auto simp: at)
  qed
  have entries: "cache_entry w2 (getCacheKey src (fst j) config) \<noteq> None"
    if "js' \<in> set (js # jss)" "j \<in> set js'" "succeeded (snd j)" for js' j
  proof (cases "js' = js")
    case True
    have "\<forall>j \<in> set (start_batch b). succeeded (snd j) \<longrightarrow>
        cache_entry w (getCacheKey src (fst j) config) \<noteq> None"
      by (simp add: start_batch_def succeeded_def)
    with acc that True have "cache_entry w1 (getCacheKey src (fst j) config) \<noteq> None" by blast
    with readFile_kept [OF cwd2 dom2] show ?thesis by (simp add: cache_entry_def)
  next
    case False
    with that(1) have "js' \<in> set jss" by simp
    with that(2,3) IH show ?thesis by blast
  qed
  have c1: "cwd w2 = cwd w" and c2: "dom (files w) \<subseteq> dom (files w2)"
    using cwd1 cwd2 dom1 dom2 by auto
  have c3: "\<exists>zs. failedBuilds w2 = failedBuilds w @ zs
      \<and> mset zs = mset (failed_platforms (concat (js # jss)))"
    using failed by blast
  have c4: "\<exists>ys. builtBinaries w2 = builtBinaries w @ ys
      \<and> mset ys = mset (built_outputs (concat (js # jss)))"
    using built by blast
  have c5: "\<forall>q v. files w2 q = Some v \<longrightarrow>
      files w q = Some v
      \<or> (\<exists>t \<in> set (concat (b # bs)). q = file_at w (cacheFile (getCacheKey src t config))
                                        \<or> q = file_at w (output t))"
    using new by blast
  have c6: "\<forall>js' \<in> set (js # jss). \<forall>j \<in> set js'. succeeded (snd j) \<longrightarrow>
      cache_entry w2 (getCacheKey src (fst j) config) \<noteq> None"
    using entries by blast
  show ?case unfolding fst_conv snd_conv
    by (intro conjI c1 c2 c3 c4 sums c5 c6)
qed

lemma run_batches_accounts:
  assumes "run_batches src config bs w (jss, w')"
  shows "cwd w' = cwd w"
    and "dom (files w) \<subseteq> dom (files w')"
    and "\<exists>zs. failedBuilds w' = failedBuilds w @ zs
           \<and> mset zs = mset (failed_platforms (concat jss))"
    and "\<exists>ys. builtBinaries w' = builtBinaries w @ ys
           \<and> mset ys = mset (built_outputs (concat jss))"
    and "checksumFiles w' = checksumFiles w"
    and "files w' q = Some v \<Longrightarrow>
         files w q = Some v
         \<or> (\<exists>t \<in> set (concat bs). q = file_at w (cacheFile (getCacheKey src t config))
                                     \<or> q = file_at w (output t))"
    and "js \<in> set jss \<Longrightarrow> j \<in> set js \<Longrightarrow> succeeded (snd j) \<Longrightarrow>
         cache_entry w' (getCacheKey src (fst j) config) \<noteq> None"
proof -
  note all = run_batches_invariant [OF assms, unfolded fst_conv snd_conv]
  note rest = all [THEN conjunct2]
  from all [THEN conjunct1] show "cwd w' = cwd w" and "dom (files w) \<subseteq> dom (files w')"
    by simp_all
  from rest [THEN conjunct1] show "\<exists>zs. failedBuilds w' = failedBuilds w @ zs
      \<and> mset zs = mset (failed_platforms (concat jss))" .
  from rest [THEN conjunct2, THEN conjunct1] show "\<exists>ys. builtBinaries w' = builtBinaries w @ ys
      \<and> mset ys = mset (built_outputs (concat jss))" .
  from rest [THEN conjunct2, THEN conjunct2, THEN conjunct1]
  show "checksumFiles w' = checksumFiles w" .
  from rest [THEN conjunct2, THEN conjunct2, THEN conjunct2, THEN conjunct1]
  show "files w' q = Some v \<Longrightarrow>
      files w q = Some v
      \<or> (\<exists>t \<in> set (concat bs). q = file_at w (cacheFile (getCacheKey src t config))
                                  \<or> q = file_at w (output t))"
    by blast
  from rest [THEN conjunct2, THEN conjunct2, THEN conjunct2, THEN conjunct2]
  show "js \<in> set jss \<Longrightarrow> j \<in> set js \<Longrightarrow> succeeded (snd j) \<Longrightarrow>
      cache_entry w' (getCacheKey src (fst j) config) \<noteq> None"
    by blast
qed

lemma fs_remove_effect [simp]:
  "files (fs_remove p w) q = (if below (file_at w p) q then None else files w q)"
  "cwd (fs_remove p w) = cwd w"
  "failedBuilds (fs_remove p w) = failedBuilds w"
  "builtBinaries (fs_remove p w) = builtBinaries w"
  "checksumFiles (fs_remove p w) = checksumFiles w"
  by (simp_all add: fs_remove_def)

lemma clean_effect:
  "cwd (cleanCache (cleanBuildDir dir w)) = cwd w"
  "failedBuilds (cleanCache (cleanBuildDir dir w)) = failedBuilds w"
  "builtBinaries (cleanCache (cleanBuildDir dir w)) = builtBinaries w"
  "in_cache_dir w q \<Longrightarrow> files (cleanCache (cleanBuildDir dir w)) q = None"
  "\<not> in_cache_dir w q \<Longrightarrow> \<not> below (file_at w dir) q \<Longrightarrow>
   files (cleanCache (cleanBuildDir dir w)) q = files w q"
  by (simp_all add: cleanCache_def cleanBuildDir_def in_cache_dir_def file_at_def)

lemma writeFile_effect [simp]:
  "files (writeFile p c w) = (files w)(file_at w p \<mapsto> c)"
  "cwd (writeFile p c w) = cwd w"
  "file_at (writeFile p c w) p' = file_at w p'"
  "failedBuilds (writeFile p c w) = failedBuilds w"
  "builtBinaries (writeFile p c w) = builtBinaries w"
  "checksumFiles (writeFile p c w) = checksumFiles w"
  by (simp_all add: writeFile_def file_at_def)

lemma write_individual_effect:
  assumes "write_individual sha256 dir bins w = Some w'"
  shows "cwd w' = cwd w \<and> dom (files w) \<subseteq> dom (files w')
    \<and> builtBinaries w' = builtBinaries w \<and> failedBuilds w' = failedBuilds w
    \<and> (\<forall>q v. files w' q = Some v \<longrightarrow>
          files w q = Some v \<or> q \<in> set (map (\<lambda>b. file_at w (individualFile dir b)) bins))"
  using assms
proof (induction bins arbitrary: w)
  case Nil
  then show ?case by simp
next
  case (Cons b bins)
  from Cons.prems obtain c where
    rest: "write_individual sha256 dir bins (writeFile (individualFile dir b) (sha256 c) w) = Some w'"
    by (auto split: option.splits)
  let ?w1 = "writeFile (individualFile dir b) (sha256 c) w"
  note IH = Cons.IH [OF rest]
  from IH have same: "cwd w' = cwd w" "builtBinaries w' = builtBinaries w"
    "failedBuilds w' = failedBuilds w" by simp_all
  from IH have "dom (files ?w1) \<subseteq> dom (files w')" by blast
  then have grows: "dom (files w) \<subseteq> dom (files w')" by auto
  have new: "files w q = Some v \<or> q \<in> set (map (\<lambda>b. file_at w (individualFile dir b)) (b # bins))"
    if "files w' q = Some v" for q v
  proof -
    from IH that have "files ?w1 q = Some v
        \<or> q \<in> set (map (\<lambda>b. file_at ?w1 (individualFile dir b)) bins)"
      by blast
    then show ?thesis by (auto split: if_splits)
  qed
  from same grows new show ?case by blast
qed

lemma generateChecksums_effect:
  assumes "generateChecksums sha256 config w = Some w'"
  shows "cwd w' = cwd w \<and> dom (files w) \<subseteq> dom (files w')
    \<and> builtBinaries w' = builtBinaries w \<and> failedBuilds w' = failedBuilds w
    \<and> (\<forall>q v. files w' q = Some v \<longrightarrow>
          files w q = Some v \<or> q \<in> set (map (file_at w') (checksumFiles w')))"
proof -
  let ?dir = "path_join [outputDir config, ''checksums'']"
  let ?file = "path_join [outputDir config, ''checksums.txt'']"
  from assms obtain lines w1 where
    written: "write_individual sha256 ?dir (builtBinaries w)
                (writeFile ?file (join [CHR 0x0A] lines) w) = Some w1"
    and w': "w' = w1\<lparr>checksumFiles := ?file # map (individualFile ?dir) (builtBinaries w)\<rparr>"
    by (auto simp: generateChecksums_def writeChecksumFiles_def Let_def split: option.splits)
  let ?w0 = "writeFile ?file (join [CHR 0x0A] lines) w"
  note eff = write_individual_effect [OF written]
  from eff w' have same: "cwd w' = cwd w" "builtBinaries w' = builtBinaries w"
    "failedBuilds w' = failedBuilds w" by simp_all
  then have at: "file_at w' p = file_at w p" for p by (simp add: file_at_def)
  from w' have paths: "checksumFiles w' = ?file # map (individualFile ?dir) (builtBinaries w)"
    by simp
  from eff have "dom (files ?w0) \<subseteq> dom (files w1)" by blast
  with w' have grows: "dom (files w) \<subseteq> dom (files w')" by auto
  have new: "files w q = Some v \<or> q \<in> set (map (file_at w') (checksumFiles w'))"
    if "files w' q = Some v" for q v
  proof -
    from that w' have "files w1 q = Some v" by simp
    with eff have "files ?w0 q = Some v
        \<or> q \<in> set (map (\<lambda>b. file_at ?w0 (individualFile ?dir b)) (builtBinaries w))"
      by blast
    then show ?thesis by (auto simp: at paths split: if_splits)
  qed
  from same grows new show ?thesis by blast
qed

lemma checksums_effect:
  assumes "(if c then generateChecksums sha256 config w else Some w) = Some w'"
  shows "cwd w' = cwd w \<and> dom (files w) \<subseteq> dom (files w')
    \<and> builtBinaries w' = builtBinaries w \<and> failedBuilds w' = failedBuilds w
    \<and> (\<forall>q v. files w' q = Some v \<longrightarrow>
          files w q = Some v \<or> c \<and> q \<in> set (map (file_at w') (checksumFiles w')))"
proof (cases c)
  case True
  with assms generateChecksums_effect [of sha256 config w w'] show ?thesis by simp
next
  case False
  with assms show ?thesis by auto
qed

text \<open>
  What \<^verbatim>\<open>build\<close> has done when the second loop of \<^verbatim>\<open>buildTargetsParallel\<close> has ended.
\<close>

lemma batches_of_build:
  assumes "w1 = (if clean config then cleanCache (cleanBuildDir (outputDir config) w) else w)"
    and "make_batches config cpus = Some bs"
    and "run_batches src config bs w1 (jss, w2)"
  shows "cwd w2 = cwd w"
    and "\<not> clean config \<Longrightarrow> dom (files w) \<subseteq> dom (files w2)"
    and "clean config \<Longrightarrow> in_cache_dir w q \<Longrightarrow> files w2 q = Some v \<Longrightarrow>
         q \<in> set (map (\<lambda>t. file_at w (cacheFile (getCacheKey src t config))) (targets config))
         \<or> q \<in> set (map (\<lambda>t. file_at w (output t)) (targets config))"
    and "\<not> in_cache_dir w q \<Longrightarrow> \<not> below (file_at w (outputDir config)) q \<Longrightarrow>
         files w q \<noteq> None \<Longrightarrow> files w2 q \<noteq> None"
    and "\<forall>js \<in> set jss. \<forall>j \<in> set js. succeeded (snd j) \<longrightarrow>
           cache_entry w2 (getCacheKey src (fst j) config) \<noteq> None"
    and "\<exists>zs. failedBuilds w2 = failedBuilds w @ zs
           \<and> mset zs = mset (failed_platforms (concat jss))"
proof -
  note run = run_batches_accounts [OF assms(3)]
  from assms(1) have cwd1: "cwd w1 = cwd w" by (simp add: clean_effect)
  then have at: "file_at w1 p = file_at w p" for p by (simp add: file_at_def)
  from run(1) cwd1 show "cwd w2 = cwd w" by simp
  show "dom (files w) \<subseteq> dom (files w2)" if "\<not> clean config"
    using that run(2) assms(1) by simp
  show "q \<in> set (map (\<lambda>t. file_at w (cacheFile (getCacheKey src t config))) (targets config))
      \<or> q \<in> set (map (\<lambda>t. file_at w (output t)) (targets config))"
    if "clean config" "in_cache_dir w q" "files w2 q = Some v"
  proof -
    from that(1,2) assms(1) have "files w1 q = None" by (simp add: clean_effect)
    with run(6) [OF that(3)] obtain t where t: "t \<in> set (concat bs)"
      "q = file_at w1 (cacheFile (getCacheKey src t config)) \<or> q = file_at w1 (output t)"
      by auto
    from t(1) make_batches_targets [OF assms(2)] have "t \<in> set (targets config)" by blast
    with t(2) show ?thesis by (auto simp: at)
  qed
  show "files w2 q \<noteq> None"
    if "\<not> in_cache_dir w q" "\<not> below (file_at w (outputDir config)) q" "files w q \<noteq> None"
  proof -
    from that assms(1) have "files w1 q \<noteq> None" by (simp add: clean_effect)
    with run(2) show ?thesis by blast
  qed
  from run(7) show "\<forall>js \<in> set jss. \<forall>j \<in> set js. succeeded (snd j) \<longrightarrow>
      cache_entry w2 (getCacheKey src (fst j) config) \<noteq> None"
    by blast
  from assms(1) have "failedBuilds w1 = failedBuilds w" by (simp add: clean_effect)
  with run(3) show "\<exists>zs. failedBuilds w2 = failedBuilds w @ zs
      \<and> mset zs = mset (failed_platforms (concat jss))"
    by simp
qed

text \<open>
  The two ways in which \<^verbatim>\<open>build\<close> ends: rejected for want of a \<^verbatim>\<open>go.mod\<close>, with
  nothing done, or after the batches, where the writing of the checksums adds its files
  to what the batches have left.
\<close>

lemma build_shape:
  assumes "build src cpus config w (r, jss, w')"
  obtains (rejected) "\<not> validateGoProject src" and "w' = w" and "jss = []"
  | (ended) w1 bs w2 where "validateGoProject src"
      and "w1 = (if clean config then cleanCache (cleanBuildDir (outputDir config) w) else w)"
      and "make_batches config cpus = Some bs"
      and "run_batches src config bs w1 (jss, w2)"
      and "cwd w' = cwd w2 \<and> dom (files w2) \<subseteq> dom (files w')
        \<and> builtBinaries w' = builtBinaries w2 \<and> failedBuilds w' = failedBuilds w2
        \<and> (\<forall>q v. files w' q = Some v \<longrightarrow>
              files w2 q = Some v
              \<or> checksum config \<and> builtBinaries w' \<noteq> []
                \<and> q \<in> set (map (file_at w') (checksumFiles w')))"
      and "\<And>res. r = Inr res \<Longrightarrow> \<exists>d. res = createBuildResult w' d"
  using assms
proof (cases rule: build.cases)
  case not_a_go_project
  then show ?thesis by (intro rejected) simp_all
next
  case (finished w1 bs w2 sha256 d)
  from checksums_effect [OF finished(6)] finished(1-5) show ?thesis
    by (intro ended [of w1 bs w2]) auto
next
  case (checksums_failed w1 bs sha256 message)
  then show ?thesis by (intro ended [of w1 bs w']) auto
qed


lemma ex_make_batches:
  assumes "targets config = [linux_amd64, darwin_arm64]" and "parallel config = Num 2"
  shows "make_batches config 4 = Some [[linux_amd64, darwin_arm64]]"
proof -
  from assms(2) have "parallelLimit config 4 = Num 2"
    by (simp add: parallelLimit_def js_min_def)
  from make_batches_positive [OF this] assms(1) ex_config_batches show ?thesis by simp
qed

text \<open>
  The cache file of a key that begins with \<^verbatim>\<open>../\<close>, as the key of a target does whose
  platform string begins with it, lies in the working directory and not in the cache
  directory.
\<close>

lemma ex_key_outside:
  "cacheFile ''../amd64-e1dfb8155737-eb42387a8f6ec268f6f1ee5489460f33''
     = ''amd64-e1dfb8155737-eb42387a8f6ec268f6f1ee5489460f33.bin''"
  "path_resolve ''/home/dev/app'' ''amd64-e1dfb8155737-eb42387a8f6ec268f6f1ee5489460f33.bin''
     = [''home'', ''dev'', ''app'', ''amd64-e1dfb8155737-eb42387a8f6ec268f6f1ee5489460f33.bin'']"
  by code_simp+

lemma ex_key_not_purged:
  "\<not> in_cache_dir fresh
       (file_at fresh (cacheFile ''../amd64-e1dfb8155737-eb42387a8f6ec268f6f1ee5489460f33''))"
  by (simp add: in_cache_dir_def file_at_def fresh_def ex_key_outside ex_paths cacheDir_def
        below_def)

text \<open>
  The build of \<open>ex_config\<close> on \<open>cached\<close> in which the toolchain wrote \<open>ELF\<close> for
  \<^verbatim>\<open>linux/amd64\<close> and failed for \<^verbatim>\<open>darwin/arm64\<close>.
\<close>

lemma ex_purge: "cleanCache (cleanBuildDir (outputDir ex_config) cached) = fresh"
  by (simp add: cleanCache_def cleanBuildDir_def fs_remove_def cached_def fresh_def ex_config_def
        file_at_def cacheDir_def ex_paths below_def fun_eq_iff)

lemma ex_checksums:
  "generateChecksums (\<lambda>content. ex_sha256) ex_config after_one_failure = Some after_clean_build"
  by (simp add: generateChecksums_def writeChecksumFiles_def after_one_failure_def
        after_clean_build_def ex_config_def readFile_def writeFile_def file_at_def ex_paths)

lemma ex_clean_build:
  "build ex_tree 4 ex_config cached
     (Inr (createBuildResult after_clean_build 1500),
      [[(linux_amd64, CachePersisted), (darwin_arm64, BuildFailed)]], after_clean_build)"
proof (rule build.finished)
  show "validateGoProject ex_tree" by (rule ex_tree_is_go_project)
  show "fresh = (if clean ex_config then cleanCache (cleanBuildDir (outputDir ex_config) cached)
                 else cached)"
    by (simp add: ex_purge) (simp add: ex_config_def)
  show "make_batches ex_config 4 = Some [[linux_amd64, darwin_arm64]]"
    by (rule ex_make_batches) (simp_all add: ex_config_def)
  show "run_batches ex_tree ex_config [[linux_amd64, darwin_arm64]] fresh
          ([[(linux_amd64, CachePersisted), (darwin_arm64, BuildFailed)]], after_one_failure)"
    by (rule ex_batches_run)
  show "(if checksum ex_config \<and> length (builtBinaries after_one_failure) > 0
         then generateChecksums (\<lambda>content. ex_sha256) ex_config after_one_failure
         else Some after_one_failure) = Some after_clean_build"
    by (simp add: ex_checksums) (simp add: ex_config_def after_one_failure_def)
qed





section \<open>The result of a build\<close>

text \<open>
  C5. Whenever a build returns a result, its \<^verbatim>\<open>success\<close> is true exactly when its list
  of failed platforms is empty, and that list is \<^verbatim>\<open>failedBuilds\<close> as the build leaves
  it: what the builder had in it before the build, followed by the platforms of the jobs
  that failed in this build. So the result reports success exactly when nothing was in
  the list before and no job of the build failed.
\<close>

theorem success_iff_no_failed_platform:
  assumes "build src cpus config w (Inr r, jss, w')"
  shows "(success r \<longleftrightarrow> failed r = [])
    \<and> failed r = failedBuilds w'
    \<and> (\<exists>zs. failed r = failedBuilds w @ zs \<and> mset zs = mset (failed_platforms (concat jss)))
    \<and> (success r \<longleftrightarrow> failedBuilds w = [] \<and> failed_platforms (concat jss) = [])"
  using assms
proof (cases rule: build_shape)
  case rejected
  from assms rejected(1) show ?thesis by (cases rule: build.cases) simp_all
next
  case (ended w1 bs w2)
  from ended(6) obtain d where r: "r = createBuildResult w' d" by blast
  from batches_of_build(6) [OF ended(2,3,4)] ended(5)
  obtain zs where zs: "failedBuilds w' = failedBuilds w @ zs"
    "mset zs = mset (failed_platforms (concat jss))" by auto
  from zs(2) have "zs = [] \<longleftrightarrow> failed_platforms (concat jss) = []"
    by (metis mset_zero_iff)
  with r zs show ?thesis by (simp add: createBuildResult_def)
qed

theorem success_iff_no_failed_platform_witness:
  "\<not> success (createBuildResult after_clean_build 1500)
   \<and> failed (createBuildResult after_clean_build 1500) = [''darwin/arm64'']
   \<and> failed_platforms [(linux_amd64, CachePersisted), (darwin_arm64, BuildFailed)]
       = [''darwin/arm64'']"
proof -
  have "failedBuilds after_clean_build = [''darwin/arm64'']"
    by (simp add: after_clean_build_def after_one_failure_def)
  moreover have "failed_platforms [(linux_amd64, CachePersisted), (darwin_arm64, BuildFailed)]
      = [''darwin/arm64'']"
    by (simp add: failed_platforms_def darwin_arm64_def)
  ultimately show ?thesis
    using success_iff_no_failed_platform [OF ex_clean_build] by simp
qed

section \<open>The cache-bypass flag\<close>

lemma job_step_same_key:
  assumes "job_step src config target x y"
    and "getCacheKey src target config' = getCacheKey src target config"
  shows "job_step src config' target x y"
  using assms(1)
proof (cases rule: job_step.cases)
  case (cache_hit w w')
  with assms(2) show ?thesis by (simp add: job_step.cache_hit)
next
  case (cache_miss w w')
  with assms(2) show ?thesis by (simp add: job_step.cache_miss)
next
  case (cache_error w blob)
  with assms(2) show ?thesis by (simp add: job_step.cache_error)
next
  case (built binary w w')
  with assms(2) show ?thesis by (simp add: job_step.built)
next
  case (toolchain_failed w)
  then show ?thesis by (simp add: job_step.toolchain_failed)
next
  case (chmod_failed w binary)
  then show ?thesis by (simp add: job_step.chmod_failed)
next
  case (save_failed w binary)
  then show ?thesis by (simp add: job_step.save_failed)
qed

text \<open>
  C10, as the code has it. The flag \<^verbatim>\<open>noCache\<close> switches nothing off. With it set, a job
  whose key is in the store is restored from the store (the step \<open>cache_hit\<close> is there
  for it), a job whose key is not in the store can only go on to the toolchain, and a
  job that ends as built has stored its binary under its key. The one place that reads
  the flag is \<^verbatim>\<open>JSON.stringify(config)\<close> in \<^verbatim>\<open>getCacheKey\<close>: a configuration that
  gives the target the same key gives it the same steps.
\<close>

theorem noCache_only_enters_the_key:
  assumes "noCache config = Some True"
  shows "(\<forall>w blob. cache_entry w (getCacheKey src target config) = Some blob \<longrightarrow>
            job_step src config target (Pending, w)
              (Restored, push_built (output target) (writeFile (output target) blob w)))
    \<and> (\<forall>w ph' w'. cache_entry w (getCacheKey src target config) = None \<longrightarrow>
            job_step src config target (Pending, w) (ph', w') \<longrightarrow> ph' = Building \<and> w' = w)
    \<and> (\<forall>w w'. job_step src config target (Building, w) (CachePersisted, w') \<longrightarrow>
            (\<exists>binary. cache_entry w' (getCacheKey src target config) = Some binary
                     \<and> readFile w' (output target) = Some binary))
    \<and> (\<forall>config'. getCacheKey src target config' = getCacheKey src target config \<longrightarrow>
            job_step src config' target = job_step src config target)"
proof -
  have hit: "job_step src config target (Pending, w)
      (Restored, push_built (output target) (writeFile (output target) blob w))"
    if "cache_entry w (getCacheKey src target config) = Some blob" for w blob
    using that by (intro job_step.cache_hit) (simp add: restoreFromCache_def)
  have miss: "ph' = Building \<and> w' = w"
    if "cache_entry w (getCacheKey src target config) = None"
      and "job_step src config target (Pending, w) (ph', w')" for w ph' w'
    using that(2,1) by (cases rule: job_step.cases) (auto simp: restoreFromCache_def)
  have stored: "\<exists>binary. cache_entry w' (getCacheKey src target config) = Some binary
      \<and> readFile w' (output target) = Some binary"
    if "job_step src config target (Building, w) (CachePersisted, w')" for w w'
    using that
    by (cases rule: job_step.cases)
       (auto simp: saveToCache_def write_output_def push_built_def cache_entry_def
          readFile_def writeFile_def file_at_def split: option.splits)
  have same: "job_step src config' target = job_step src config target"
    if "getCacheKey src target config' = getCacheKey src target config" for config'
    using that job_step_same_key [of src config target _ _ config']
      job_step_same_key [of src config' target _ _ config]
    by (intro ext) (metis (full_types))
  from hit miss stored same show ?thesis by blast
qed

theorem noCache_only_enters_the_key_witness:
  "job_step ex_tree (ex_config\<lparr>noCache := Some True\<rparr>) linux_amd64
     (Pending,
      writeFile (cacheFile (getCacheKey ex_tree linux_amd64 (ex_config\<lparr>noCache := Some True\<rparr>)))
        ''ELF'' fresh)
     (Restored,
      push_built (output linux_amd64)
        (writeFile (output linux_amd64) ''ELF''
           (writeFile
              (cacheFile (getCacheKey ex_tree linux_amd64 (ex_config\<lparr>noCache := Some True\<rparr>)))
              ''ELF'' fresh)))"
proof -
  let ?key = "getCacheKey ex_tree linux_amd64 (ex_config\<lparr>noCache := Some True\<rparr>)"
  have flag: "noCache (ex_config\<lparr>noCache := Some True\<rparr>) = Some True" by simp
  have present: "cache_entry (writeFile (cacheFile ?key) ''ELF'' fresh) ?key = Some ''ELF''"
    by (simp add: cache_entry_def readFile_def writeFile_def file_at_def)
  from noCache_only_enters_the_key [OF flag, of ex_tree linux_amd64] present
  show ?thesis by blast
qed

text \<open>
  C10, as the specification states it, fails in its last part: the flag is read when the
  configuration is hashed, and setting it gives the target another cache key.
\<close>

theorem noCache_changes_key_counterexample:
  "noCache ex_config = Some False
   \<and> getCacheKey ex_tree linux_amd64 ex_config
       = ''linux/amd64-e1dfb8155737-eb42387a8f6ec268f6f1ee5489460f33''
   \<and> getCacheKey ex_tree linux_amd64 (ex_config\<lparr>noCache := Some True\<rparr>)
       = ''linux/amd64-e1dfb8155737-8b30a92b59d803079dcd1894d61343c9''"
  by (simp add: getCacheKey_def ex_tree_hash ex_config_hash ex_config_noCache_hash)
     (simp add: linux_amd64_def ex_config_def)

end
